theory Spec2Isabelle
  imports Main "HOL-Library.AList"
begin

section \<open>An embedding of the entity-component-system registry (ecs.js)\<close>

text \<open>
  The registry keeps four JavaScript objects used as dictionaries (entities, systems,
  component classes, queries), each entity keeps a dictionary of its components, each
  registered component class keeps the dictionary of the entities that hold it, and each
  query keeps a cache of matching entity ids.

  A JavaScript object is an association list of its own properties in insertion order:
  \<open>d[k] = v\<close> is \<open>AList.update\<close> (an existing key keeps its place, a new key goes
  last), \<open>delete d[k]\<close> is \<open>AList.delete\<close> and \<open>for (k in d)\<close> walks the list.
  The operator \<open>in\<close> also finds the properties an object inherits (\<open>js_in\<close>,
  \<open>entity_in\<close>), and an assignment to \<open>__proto__\<close> replaces the prototype instead
  of making a property.

  A call either returns or throws; a throw leaves behind the state reached so far, so
  every operation that can throw returns an outcome together with the state.

  What is taken as given: the constructors and hooks of component and system classes are
  those of the base classes \<open>Component\<close> and \<open>System\<close>; a property bag holds numbers,
  strings and class objects; \<open>crypto.randomUUID\<close>, \<open>CustomEvent\<close> and \<open>EventTarget\<close>
  are those of the platform, and what a listener throws does not reach the caller of
  \<open>dispatchEvent\<close>; \<open>addEntity\<close> is called by the constructor of \<open>Entity\<close> only.
  Two places are not followed and end a call with the outcome \<open>Beyond\<close>: a class
  object found in a property bag and then used as the table of component classes, and
  the enumeration of a component whose prototype a property bag has replaced.
\<close>

subsection \<open>Values\<close>

datatype error =
    NotRegistered string
  | ReferenceError string
  | TypeError

datatype 'a outcome = Returned 'a | Threw error | Beyond

text \<open>The names every object inherits from \<open>Object.prototype\<close>, and the names of
  \<open>Entity.prototype\<close>.\<close>

definition object_prototype_names :: "string list" where
  "object_prototype_names =
     [''constructor'', ''__defineGetter__'', ''__defineSetter__'', ''hasOwnProperty'',
      ''__lookupGetter__'', ''__lookupSetter__'', ''isPrototypeOf'', ''propertyIsEnumerable'',
      ''toString'', ''valueOf'', ''__proto__'', ''toLocaleString'']"

definition entity_prototype_names :: "string list" where
  "entity_prototype_names = [''constructor'', ''addComponent'', ''removeComponent'']"

text \<open>\<open>k in d\<close> for a plain object \<open>d\<close>.\<close>

definition js_in :: "string \<Rightarrow> (string \<times> 'v) list \<Rightarrow> bool" where
  "js_in k d = (k \<in> set (map fst d) \<or> k \<in> set object_prototype_names)"

text \<open>The keys of the dictionaries indexed by entity ids are the strings that
  \<open>this.id\<close> can turn into: the string drawn by \<open>crypto.randomUUID\<close>, the text
  \<open>[object Object]\<close> of an object, and \<open>undefined\<close>. None of them is an inherited
  name.\<close>

datatype idkey = Uuid string | ObjectKey | UndefinedKey

text \<open>What a query stores under an entity id: the boolean \<open>true\<close> (line 213) or the
  entity object (line 191), which is the entity stored in the world under the given
  key.\<close>

datatype qvalue = QTrue | QEntity idkey

text \<open>What a property bag holds: a number, a string or a class object, of which only
  the name is read.\<close>

datatype pval = PNumber int | PString string | PClass string

type_synonym props = "(string \<times> pval) list"

text \<open>A property of a component is a value of its bag or a reference to an object that
  the program has written (the entity, or a component).\<close>

datatype cval = Given pval | Ref

text \<open>A component instance: the name of the class it was constructed from, its own
  properties, and whether its prototype is no longer that of its class.\<close>

record component =
  comp_class :: string
  comp_props :: "(string \<times> cval) list"
  comp_proto_replaced :: bool

text \<open>An entity is the association list of its own properties: \<open>id\<close>,
  \<open>components\<close>, \<open>ecs\<close> (the world that holds the entity) and whatever
  \<open>addComponent\<close> has put on the entity object itself.\<close>

datatype evalue =
    EUuid string
  | EDict "(string \<times> component) list"
  | EWorld
  | EComponent component

record Entity =
  ent_props :: "(string \<times> evalue) list"
  ent_proto_replaced :: bool

text \<open>A class object is known by its name and a tag that tells classes of one name
  apart. Registration gives it the static property \<open>entities\<close>, a dictionary whose
  keys are the ids of the entities holding the class and whose values are all \<open>true\<close>
  (and \<open>ecs\<close>, which is never read).\<close>

type_synonym class_object = "string \<times> nat"

record component_class =
  cls_entities :: "idkey set"

record system =
  sys_name :: string

text \<open>A query. \<open>q_components\<close> are the values \<open>ecs.components[name]\<close> read when
  the query was constructed: \<open>Some c\<close> is the class object registered under that name,
  \<open>None\<close> is \<open>undefined\<close> or an inherited value, which has no \<open>entities\<close>.\<close>

record query =
  q_components :: "class_object option list"
  q_component_names :: "string list"
  q_logic :: "string list"
  q_entities :: "(idkey \<times> qvalue) list"

text \<open>The world, together with the class objects of the program. The class objects
  and their static properties do not belong to one world: a second world works on the
  same \<open>class_objects\<close>. \<open>this.events\<close> has one \<open>component_added\<close> listener for
  each query, added by the query's constructor; the listeners of the queries in
  \<open>this.queries\<close> are run by walking that dictionary. (A query whose constructor throws
  is referenced by its listener only and can never be observed.) \<open>ecs_console\<close> is what
  \<open>console.error\<close> has printed and \<open>ecs_registration_hooks\<close> lists the systems whose
  \<open>onRegistration\<close> has been called, both in order.\<close>

record ECS =
  class_objects :: "(class_object \<times> component_class) list"
  ecs_entities :: "(idkey \<times> Entity) list"
  ecs_systems :: "(string \<times> system) list"
  ecs_components :: "(string \<times> class_object) list"
  ecs_queries :: "(string \<times> query) list"
  ecs_console :: "string list"
  ecs_registration_hooks :: "string list"

subsection \<open>class ECS: registration\<close>

definition ECS_new :: "ECS" where
  "ECS_new = \<lparr>class_objects = [], ecs_entities = [], ecs_systems = [], ecs_components = [],
     ecs_queries = [], ecs_console = [], ecs_registration_hooks = []\<rparr>"

text \<open>A second world of the same program: it starts empty and finds the class objects
  as the first world has left them.\<close>

definition ECS_new_beside :: "ECS \<Rightarrow> ECS" where
  "ECS_new_beside w = ECS_new\<lparr>class_objects := class_objects w\<rparr>"

text \<open>The first world, after a second world has run.\<close>

definition back_in :: "ECS \<Rightarrow> ECS \<Rightarrow> ECS" where
  "back_in w other = w\<lparr>class_objects := class_objects other\<rparr>"

definition console_error :: "string \<Rightarrow> ECS \<Rightarrow> ECS" where
  "console_error msg w = w\<lparr>ecs_console := ecs_console w @ [msg]\<rparr>"

text \<open>\<open>registerSystem\<close>: the system is named by its class; \<open>System.onRegistration\<close>
  does nothing but is recorded as called.\<close>

definition registerSystem :: "string \<Rightarrow> ECS \<Rightarrow> ECS" where
  "registerSystem system_name w =
     (if js_in system_name (ecs_systems w)
      then console_error (''System '' @ system_name @ '' already registered with ECS'') w
      else w\<lparr>ecs_systems := AList.update system_name \<lparr>sys_name = system_name\<rparr> (ecs_systems w),
             ecs_registration_hooks := ecs_registration_hooks w @ [system_name]\<rparr>)"

text \<open>\<open>registerComponent\<close>: line 34 gives the class object a new, empty \<open>entities\<close>,
  whatever it had before. Line 32 records the world on the class object; nothing reads
  it.\<close>

definition registerComponent :: "class_object \<Rightarrow> ECS \<Rightarrow> ECS" where
  "registerComponent component_class w =
     (if js_in (fst component_class) (ecs_components w)
      then console_error
             (''Component '' @ fst component_class @ '' already registered with ECS'') w
      else w\<lparr>ecs_components :=
               AList.update (fst component_class) component_class (ecs_components w),
             class_objects :=
               AList.update component_class \<lparr>cls_entities = {}\<rparr> (class_objects w)\<rparr>)"

subsection \<open>class Component\<close>

text \<open>\<open>Object.assign(this, properties)\<close>: each entry is assigned in turn; the key
  \<open>__proto__\<close> replaces the prototype when the value is an object and does nothing
  otherwise.\<close>

fun assign :: "props \<Rightarrow> component \<Rightarrow> component" where
  "assign [] c = c"
| "assign ((k, v) # ps) c =
     assign ps
       (if k = ''__proto__''
        then (case v of PClass n \<Rightarrow> c\<lparr>comp_proto_replaced := True\<rparr> | _ \<Rightarrow> c)
        else c\<lparr>comp_props := AList.update k (Given v) (comp_props c)\<rparr>)"

definition Component_new :: "string \<Rightarrow> props \<Rightarrow> component" where
  "Component_new class_name properties =
     assign properties \<lparr>comp_class = class_name, comp_props = [], comp_proto_replaced = False\<rparr>"

text \<open>\<open>component.constructor.name\<close>, as a property key: an own property
  \<open>constructor\<close> hides the class; a number or a string has no name, which gives the
  key \<open>undefined\<close>; a prototype replaced by a class object leads to \<open>Function\<close>.\<close>

definition constructor_name :: "component \<Rightarrow> string" where
  "constructor_name c =
     (case map_of (comp_props c) ''constructor'' of
        Some (Given (PClass n)) \<Rightarrow> n
      | Some v \<Rightarrow> ''undefined''
      | None \<Rightarrow> if comp_proto_replaced c then ''Function'' else comp_class c)"

text \<open>The text of a component in a template or as a property key: \<open>[object Object]\<close>
  from \<open>Object.prototype.toString\<close>, and a TypeError when the component has a
  property \<open>toString\<close> of its own (no such value can be called to give a string) or a
  replaced prototype.\<close>

definition component_string :: "component \<Rightarrow> error + string" where
  "component_string c =
     (if ''toString'' \<in> set (map fst (comp_props c)) \<or> comp_proto_replaced c
      then Inl TypeError else Inr ''[object Object]'')"

text \<open>\<open>onAttached\<close> of the base class sets the back reference.\<close>

definition onAttached :: "component \<Rightarrow> component" where
  "onAttached c = c\<lparr>comp_props := AList.update ''entity'' Ref (comp_props c)\<rparr>"

subsection \<open>class Entity: construction and property access\<close>

text \<open>\<open>this.id\<close> as a property key.\<close>

definition id_key :: "Entity \<Rightarrow> error + idkey" where
  "id_key e =
     (case map_of (ent_props e) ''id'' of
        None \<Rightarrow> Inr UndefinedKey
      | Some (EUuid s) \<Rightarrow> Inr (Uuid s)
      | Some (EComponent c) \<Rightarrow>
          (case component_string c of Inl err \<Rightarrow> Inl err | Inr s \<Rightarrow> Inr ObjectKey)
      | Some v \<Rightarrow> Inr ObjectKey)"

definition addEntity :: "Entity \<Rightarrow> ECS \<Rightarrow> unit outcome \<times> ECS" where
  "addEntity entity w =
     (case id_key entity of
        Inl err \<Rightarrow> (Threw err, w)
      | Inr k \<Rightarrow> (Returned (), w\<lparr>ecs_entities := AList.update k entity (ecs_entities w)\<rparr>))"

text \<open>The constructor draws the id from \<open>crypto.randomUUID()\<close>; the id drawn is the
  argument \<open>uuid\<close>.\<close>

definition Entity_new :: "string \<Rightarrow> ECS \<Rightarrow> ECS" where
  "Entity_new uuid w =
     snd (addEntity
            \<lparr>ent_props = [(''id'', EUuid uuid), (''components'', EDict []), (''ecs'', EWorld)],
             ent_proto_replaced = False\<rparr> w)"

text \<open>\<open>name in this\<close> for an entity whose prototype is \<open>Entity.prototype\<close>.\<close>

definition entity_in :: "string \<Rightarrow> Entity \<Rightarrow> bool" where
  "entity_in name e =
     (name \<in> set (map fst (ent_props e)) \<or> name \<in> set entity_prototype_names \<or>
      name \<in> set object_prototype_names)"

text \<open>Whether a method of \<open>Entity.prototype\<close> can be called on the entity: not when
  the prototype has been replaced, and not when a component stored under the method's
  name hides it.\<close>

definition has_method :: "string \<Rightarrow> Entity \<Rightarrow> bool" where
  "has_method name e = (\<not> ent_proto_replaced e \<and> name \<notin> set (map fst (ent_props e)))"

text \<open>What \<open>this.ecs.components\<close> is: the table of the world; nothing that can be
  searched or indexed (\<open>this.ecs\<close> is missing, or it is a component without a
  property \<open>components\<close> or with a number or string there), which is a TypeError in
  lines 89, 98 and 109; or an object from a property bag.\<close>

datatype components_table = World_table | Unusable | Unknown_object

definition this_ecs_components :: "Entity \<Rightarrow> components_table" where
  "this_ecs_components e =
     (case map_of (ent_props e) ''ecs'' of
        None \<Rightarrow> Unusable
      | Some EWorld \<Rightarrow> World_table
      | Some (EComponent c) \<Rightarrow>
          (case map_of (comp_props c) ''components'' of
             None \<Rightarrow> Unusable
           | Some (Given (PNumber n)) \<Rightarrow> Unusable
           | Some (Given (PString s)) \<Rightarrow> Unusable
           | Some v \<Rightarrow> Unknown_object)
      | Some v \<Rightarrow> Unknown_object)"

text \<open>The names that \<open>for (property in entity.components)\<close> visits: the keys of the
  dictionary, or the own properties of a component that has taken its place; nothing
  when \<open>entity.components\<close> is missing.\<close>

definition component_keys :: "Entity \<Rightarrow> string list outcome" where
  "component_keys e =
     (case map_of (ent_props e) ''components'' of
        None \<Rightarrow> Returned []
      | Some (EDict d) \<Rightarrow> Returned (map fst d)
      | Some (EComponent c) \<Rightarrow>
          if comp_proto_replaced c then Beyond else Returned (map fst (comp_props c))
      | Some v \<Rightarrow> Returned [])"

subsection \<open>class Query\<close>

text \<open>\<open>startsWith('!')\<close> and \<open>slice(1)\<close>: one leading \<open>!\<close> is removed.\<close>

definition strip_not :: "string \<Rightarrow> string" where
  "strip_not component_name =
     (case component_name of
        [] \<Rightarrow> []
      | c # rest \<Rightarrow> if c = CHR ''!'' then rest else component_name)"

definition class_ref :: "ECS \<Rightarrow> string \<Rightarrow> class_object option" where
  "class_ref ecs component_name = map_of (ecs_components ecs) component_name"

text \<open>The fields the constructor sets (lines 152 to 168), before its call of
  \<open>refresh\<close>.\<close>

definition Query_fields :: "ECS \<Rightarrow> string list \<Rightarrow> query" where
  "Query_fields ecs logic =
     \<lparr>q_components = map (\<lambda>token. class_ref ecs (strip_not token)) logic,
      q_component_names = map strip_not logic,
      q_logic = logic,
      q_entities = []\<rparr>"

text \<open>\<open>componentAddedToEntity\<close>, for the entity stored under \<open>eid\<close>: the loop over
  \<open>entity.components\<close> counts the names that occur in \<open>component_names\<close>. Turning
  \<open>entity.id\<close> into a key can throw.\<close>

definition componentAddedToEntity :: "idkey \<Rightarrow> Entity \<Rightarrow> query \<Rightarrow> query outcome" where
  "componentAddedToEntity eid entity q =
     (case component_keys entity of
        Beyond \<Rightarrow> Beyond
      | Threw err \<Rightarrow> Threw err
      | Returned properties \<Rightarrow>
          (let num_matches_required = length (q_components q);
               cur_match_count =
                 length (filter (\<lambda>property. property \<in> set (q_component_names q)) properties)
           in if cur_match_count = num_matches_required
              then (case id_key entity of
                      Inl err \<Rightarrow> Threw err
                    | Inr k \<Rightarrow>
                        Returned (q\<lparr>q_entities := AList.update k (QEntity eid) (q_entities q)\<rparr>))
              else Returned q))"

text \<open>\<open>refresh\<close>, inner loop (lines 206 to 211): reading \<open>component.entities\<close> of
  \<open>undefined\<close>, or indexing the missing \<open>entities\<close> of an inherited value, throws a
  TypeError.\<close>

fun count_present ::
  "ECS \<Rightarrow> idkey \<Rightarrow> class_object option list \<Rightarrow> nat \<Rightarrow> nat outcome" where
  "count_present ecs entity_id [] cur_match_count = Returned cur_match_count"
| "count_present ecs entity_id (None # cs) cur_match_count = Threw TypeError"
| "count_present ecs entity_id (Some c # cs) cur_match_count =
     (case map_of (class_objects ecs) c of
        None \<Rightarrow> Threw TypeError
      | Some cls \<Rightarrow>
          count_present ecs entity_id cs
            (if entity_id \<in> cls_entities cls then Suc cur_match_count else cur_match_count))"

text \<open>\<open>refresh\<close>, outer loop (lines 203 to 215) over the ids in \<open>ecs.entities\<close>.\<close>

fun refresh_entities ::
  "ECS \<Rightarrow> query \<Rightarrow> idkey list \<Rightarrow> (idkey \<times> qvalue) list
     \<Rightarrow> unit outcome \<times> (idkey \<times> qvalue) list" where
  "refresh_entities ecs q [] cache = (Returned (), cache)"
| "refresh_entities ecs q (entity_id # ids) cache =
     (case count_present ecs entity_id (q_components q) 0 of
        Returned cur_match_count \<Rightarrow>
          refresh_entities ecs q ids
            (if cur_match_count = length (q_components q)
             then AList.update entity_id QTrue cache else cache)
      | Threw err \<Rightarrow> (Threw err, cache)
      | Beyond \<Rightarrow> (Beyond, cache))"

definition refresh :: "ECS \<Rightarrow> query \<Rightarrow> unit outcome \<times> query" where
  "refresh ecs q =
     (case refresh_entities ecs q (map fst (ecs_entities ecs)) [] of
        (r, cache) \<Rightarrow> (r, q\<lparr>q_entities := cache\<rparr>))"

text \<open>\<open>new Query(ecs, logic)\<close>: the fields, the listener, and the first \<open>refresh\<close>;
  when that does not return there is no query.\<close>

definition Query_new :: "ECS \<Rightarrow> string list \<Rightarrow> error + query" where
  "Query_new ecs logic =
     (case refresh ecs (Query_fields ecs logic) of
        (Returned u, q) \<Rightarrow> Inr q
      | (Threw err, q) \<Rightarrow> Inl err
      | (Beyond, q) \<Rightarrow> Inl TypeError)"

subsection \<open>class ECS: queries\<close>

text \<open>\<open>logic in this.queries\<close> and \<open>this.queries[logic]\<close> turn the array into its
  property key, the tokens joined by commas.\<close>

fun logic_key :: "string list \<Rightarrow> string" where
  "logic_key [] = []"
| "logic_key [token] = token"
| "logic_key (token # tokens) = token @ '','' @ logic_key tokens"

definition createQuery :: "string list \<Rightarrow> ECS \<Rightarrow> bool outcome \<times> ECS" where
  "createQuery logic w =
     (if js_in (logic_key logic) (ecs_queries w)
      then (Returned False,
            console_error (''Query '' @ logic_key logic @ '' already exists in ECS'') w)
      else
        (case Query_new w logic of
           Inl err \<Rightarrow> (Threw err, w)
         | Inr q \<Rightarrow>
             (case refresh w q of
                (Returned u, q') \<Rightarrow>
                  (Returned True,
                   w\<lparr>ecs_queries := AList.update (logic_key logic) q' (ecs_queries w)\<rparr>)
              | (Threw err, q') \<Rightarrow>
                  (Threw err,
                   w\<lparr>ecs_queries := AList.update (logic_key logic) q' (ecs_queries w)\<rparr>)
              | (Beyond, q') \<Rightarrow>
                  (Beyond,
                   w\<lparr>ecs_queries := AList.update (logic_key logic) q' (ecs_queries w)\<rparr>))))"

text \<open>What \<open>query\<close> returns: the cache of a query, or \<open>undefined\<close> when the key is
  only an inherited name of \<open>this.queries\<close>.\<close>

datatype result = Cache "(idkey \<times> qvalue) list" | Undefined

definition query :: "string list \<Rightarrow> ECS \<Rightarrow> result outcome \<times> ECS" where
  "query logic w =
     (if js_in (logic_key logic) (ecs_queries w)
      then (case map_of (ecs_queries w) (logic_key logic) of
              None \<Rightarrow> (Returned Undefined, w)
            | Some q \<Rightarrow> (Returned (Cache (q_entities q)), w))
      else
        (case createQuery logic w of
           (Returned True, w') \<Rightarrow>
             (case map_of (ecs_queries w') (logic_key logic) of
                None \<Rightarrow> (Threw TypeError, w')
              | Some q \<Rightarrow> (Returned (Cache (q_entities q)), w'))
         | (Returned False, w') \<Rightarrow>
             (Returned (Cache []),
              console_error
                (''Query '' @ logic_key logic @ '' not found in ECS - creation failed'') w')
         | (Threw err, w') \<Rightarrow> (Threw err, w')
         | (Beyond, w') \<Rightarrow> (Beyond, w')))"

subsection \<open>class Entity: attaching and removing components\<close>

text \<open>The \<open>component_added\<close> event runs the listener of every query; a listener that
  throws leaves its query as it was and the others still run.\<close>

fun dispatch_component_added ::
  "idkey \<Rightarrow> Entity \<Rightarrow> (string \<times> query) list \<Rightarrow> unit outcome \<times> (string \<times> query) list" where
  "dispatch_component_added eid entity [] = (Returned (), [])"
| "dispatch_component_added eid entity ((query_name, q) # rest) =
     (case componentAddedToEntity eid entity q of
        Beyond \<Rightarrow> (Beyond, (query_name, q) # rest)
      | Threw err \<Rightarrow>
          (case dispatch_component_added eid entity rest of
             (r, rest') \<Rightarrow> (r, (query_name, q) # rest'))
      | Returned q' \<Rightarrow>
          (case dispatch_component_added eid entity rest of
             (r, rest') \<Rightarrow> (r, (query_name, q') # rest')))"

text \<open>Line 94, \<open>this[name] = component\<close>.\<close>

definition set_own :: "string \<Rightarrow> component \<Rightarrow> Entity \<Rightarrow> Entity" where
  "set_own name c e =
     (if name = ''__proto__'' then e\<lparr>ent_proto_replaced := True\<rparr>
      else e\<lparr>ent_props := AList.update name (EComponent c) (ent_props e)\<rparr>)"

text \<open>Line 95, \<open>this.components[name] = component\<close>: into the dictionary, or into the
  component that has taken its place; a TypeError when \<open>this.components\<close> is
  missing.\<close>

definition set_in_components :: "string \<Rightarrow> component \<Rightarrow> Entity \<Rightarrow> error + Entity" where
  "set_in_components name c e =
     (case map_of (ent_props e) ''components'' of
        Some (EDict d) \<Rightarrow>
          Inr (if name = ''__proto__'' then e
               else e\<lparr>ent_props :=
                       AList.update ''components'' (EDict (AList.update name c d)) (ent_props e)\<rparr>)
      | Some (EComponent c0) \<Rightarrow>
          Inr (if name = ''__proto__'' then e
               else e\<lparr>ent_props :=
                       AList.update ''components''
                         (EComponent (c0\<lparr>comp_props := AList.update name Ref (comp_props c0)\<rparr>))
                         (ent_props e)\<rparr>)
      | _ \<Rightarrow> Inl TypeError)"

text \<open>Line 99 writes to the component object, which by then is stored on the entity
  and in its dictionary.\<close>

definition attached_in_place :: "string \<Rightarrow> Entity \<Rightarrow> Entity" where
  "attached_in_place name e =
     e\<lparr>ent_props :=
         AList.map_entry ''components''
           (\<lambda>v. case v of EDict d \<Rightarrow> EDict (AList.map_entry name onAttached d) | _ \<Rightarrow> v)
           (AList.map_entry name
              (\<lambda>v. case v of EComponent c \<Rightarrow> EComponent (onAttached c) | _ \<Rightarrow> v)
              (ent_props e))\<rparr>"

definition put_entity :: "idkey \<Rightarrow> Entity \<Rightarrow> ECS \<Rightarrow> ECS" where
  "put_entity eid e w = w\<lparr>ecs_entities := AList.update eid e (ecs_entities w)\<rparr>"

text \<open>Line 98, \<open>this.ecs.components[name].entities[this.id] = true\<close>, for the entity
  as lines 94 and 95 have left it.\<close>

definition mark_present :: "string \<Rightarrow> Entity \<Rightarrow> ECS \<Rightarrow> unit outcome \<times> ECS" where
  "mark_present name e w =
     (case this_ecs_components e of
        Unusable \<Rightarrow> (Threw TypeError, w)
      | Unknown_object \<Rightarrow> (Beyond, w)
      | World_table \<Rightarrow>
          (case map_of (ecs_components w) name of
             None \<Rightarrow> (Threw TypeError, w)
           | Some cls \<Rightarrow>
               (case map_of (class_objects w) cls of
                  None \<Rightarrow> (Threw TypeError, w)
                | Some statics \<Rightarrow>
                    (case id_key e of
                       Inl err \<Rightarrow> (Threw err, w)
                     | Inr k \<Rightarrow>
                         (Returned (),
                          w\<lparr>class_objects :=
                              AList.update cls
                                (statics\<lparr>cls_entities := insert k (cls_entities statics)\<rparr>)
                                (class_objects w)\<rparr>)))))"

text \<open>\<open>addComponent\<close> on the entity stored under \<open>eid\<close>, with a class named
  \<open>class_name\<close>. Calling a method of an entity that does not exist, or a method that
  the entity no longer has, is the TypeError of the call site.\<close>

definition addComponent :: "idkey \<Rightarrow> string \<Rightarrow> props \<Rightarrow> ECS \<Rightarrow> unit outcome \<times> ECS" where
  "addComponent eid class_name properties w =
     (case map_of (ecs_entities w) eid of
        None \<Rightarrow> (Threw TypeError, w)
      | Some self \<Rightarrow>
          if \<not> has_method ''addComponent'' self then (Threw TypeError, w)
          else
            (let component = Component_new class_name properties;
                 name = constructor_name component
             in case this_ecs_components self of
                  Unusable \<Rightarrow> (Threw TypeError, w)
                | Unknown_object \<Rightarrow> (Beyond, w)
                | World_table \<Rightarrow>
                    if \<not> js_in name (ecs_components w)
                    then (case component_string component of
                            Inl err \<Rightarrow> (Threw err, w)
                          | Inr text \<Rightarrow> (Threw (NotRegistered text), w))
                    else
                      (let self1 = set_own name component self
                       in case set_in_components name component self1 of
                            Inl err \<Rightarrow> (Threw err, put_entity eid self1 w)
                          | Inr self2 \<Rightarrow>
                              (case mark_present name self2 (put_entity eid self2 w) of
                                 (Returned u, w1) \<Rightarrow>
                                   if ''onAttached'' \<in> set (map fst (comp_props component)) \<or>
                                      comp_proto_replaced component
                                   then (Threw TypeError, w1)
                                   else
                                     (let self3 = attached_in_place name self2;
                                          w2 = put_entity eid self3 w1
                                      in case dispatch_component_added eid self3 (ecs_queries w2) of
                                           (r, qs) \<Rightarrow> (r, w2\<lparr>ecs_queries := qs\<rparr>))
                               | (r, w1) \<Rightarrow> (r, w1)))))"

text \<open>The loop of \<open>removeComponent\<close> over \<open>this.ecs.queries\<close> (lines 111 to 116); a
  \<open>refresh\<close> that throws ends it.\<close>

fun refresh_queries ::
  "ECS \<Rightarrow> string \<Rightarrow> (string \<times> query) list \<Rightarrow> unit outcome \<times> (string \<times> query) list" where
  "refresh_queries ecs component_name [] = (Returned (), [])"
| "refresh_queries ecs component_name ((query_name, q) # rest) =
     (if component_name \<in> set (q_component_names q)
      then (case refresh ecs q of
              (Returned u, q') \<Rightarrow>
                (case refresh_queries ecs component_name rest of
                   (r, rest') \<Rightarrow> (r, (query_name, q') # rest'))
            | (r, q') \<Rightarrow> (r, (query_name, q') # rest))
      else (case refresh_queries ecs component_name rest of
              (r, rest') \<Rightarrow> (r, (query_name, q) # rest')))"

text \<open>Line 108, \<open>delete this.components[component_name]\<close>.\<close>

definition delete_in_components :: "string \<Rightarrow> Entity \<Rightarrow> error + Entity" where
  "delete_in_components name e =
     (case map_of (ent_props e) ''components'' of
        Some (EDict d) \<Rightarrow>
          Inr (e\<lparr>ent_props :=
                  AList.update ''components'' (EDict (AList.delete name d)) (ent_props e)\<rparr>)
      | Some (EComponent c0) \<Rightarrow>
          Inr (e\<lparr>ent_props :=
                  AList.update ''components''
                    (EComponent (c0\<lparr>comp_props := AList.delete name (comp_props c0)\<rparr>))
                    (ent_props e)\<rparr>)
      | _ \<Rightarrow> Inl TypeError)"

text \<open>Line 109, \<open>delete this.ecs.components[component_name].entities[this.id]\<close>.\<close>

definition mark_absent :: "string \<Rightarrow> Entity \<Rightarrow> ECS \<Rightarrow> unit outcome \<times> ECS" where
  "mark_absent name e w =
     (case this_ecs_components e of
        Unusable \<Rightarrow> (Threw TypeError, w)
      | Unknown_object \<Rightarrow> (Beyond, w)
      | World_table \<Rightarrow>
          (case map_of (ecs_components w) name of
             None \<Rightarrow> (Threw TypeError, w)
           | Some cls \<Rightarrow>
               (case map_of (class_objects w) cls of
                  None \<Rightarrow> (Threw TypeError, w)
                | Some statics \<Rightarrow>
                    (case id_key e of
                       Inl err \<Rightarrow> (Threw err, w)
                     | Inr k \<Rightarrow>
                         (Returned (),
                          w\<lparr>class_objects :=
                              AList.update cls
                                (statics\<lparr>cls_entities := cls_entities statics - {k}\<rparr>)
                                (class_objects w)\<rparr>)))))"

text \<open>\<open>removeComponent\<close>. In the else branch the message is built from
  \<open>component_name\<close>, a constant declared inside the other branch, so evaluating the
  template throws a ReferenceError before anything is printed.\<close>

definition removeComponent :: "idkey \<Rightarrow> string \<Rightarrow> ECS \<Rightarrow> unit outcome \<times> ECS" where
  "removeComponent eid class_name w =
     (case map_of (ecs_entities w) eid of
        None \<Rightarrow> (Threw TypeError, w)
      | Some self \<Rightarrow>
          if \<not> has_method ''removeComponent'' self then (Threw TypeError, w)
          else if entity_in class_name self
          then
            (let self1 = self\<lparr>ent_props := AList.delete class_name (ent_props self)\<rparr>
             in case delete_in_components class_name self1 of
                  Inl err \<Rightarrow> (Threw err, put_entity eid self1 w)
                | Inr self2 \<Rightarrow>
                    (case mark_absent class_name self2 (put_entity eid self2 w) of
                       (Returned u, w2) \<Rightarrow>
                         (case refresh_queries w2 class_name (ecs_queries w2) of
                            (r, qs) \<Rightarrow> (r, w2\<lparr>ecs_queries := qs\<rparr>))
                     | (r, w2) \<Rightarrow> (r, w2)))
          else (Threw (ReferenceError ''component_name''), w))"

subsection \<open>Sequences of calls on entities\<close>

text \<open>A caller may catch what a call throws and go on, so a sequence of calls keeps the
  state each call leaves behind, whatever its outcome.\<close>

datatype op = Attach idkey string props | Detach idkey string

fun apply_op :: "op \<Rightarrow> ECS \<Rightarrow> ECS" where
  "apply_op (Attach eid class_name properties) w = snd (addComponent eid class_name properties w)"
| "apply_op (Detach eid class_name) w = snd (removeComponent eid class_name w)"

fun run :: "op list \<Rightarrow> ECS \<Rightarrow> ECS" where
  "run [] w = w"
| "run (op # ops) w = run ops (apply_op op w)"

subsection \<open>Holding a component\<close>

text \<open>The dictionary \<open>this.components\<close> of an entity, while it is one.\<close>

definition ent_components :: "Entity \<Rightarrow> (string \<times> component) list" where
  "ent_components e =
     (case map_of (ent_props e) ''components'' of Some (EDict d) \<Rightarrow> d | _ \<Rightarrow> [])"

definition holds :: "Entity \<Rightarrow> string \<Rightarrow> bool" where
  "holds e T = (T \<in> set (map fst (ent_components e)))"

text \<open>The entities of the world that hold a component named \<open>T\<close>, by the ids under
  which the world keeps them.\<close>

definition holders :: "ECS \<Rightarrow> string \<Rightarrow> idkey set" where
  "holders w T = set (map fst (filter (\<lambda>p. holds (snd p) T) (ecs_entities w)))"

text \<open>The presence set of the class registered under a name.\<close>

definition presence :: "ECS \<Rightarrow> string \<Rightarrow> idkey set option" where
  "presence w T =
     (case map_of (ecs_components w) T of
        None \<Rightarrow> None
      | Some cls \<Rightarrow> map_option cls_entities (map_of (class_objects w) cls))"

subsection \<open>Ordinary calls, and the consistency of the registry\<close>

text \<open>The names that an entity has as fields or inherits.\<close>

definition reserved_names :: "string list" where
  "reserved_names =
     [''id'', ''components'', ''ecs''] @ entity_prototype_names @ object_prototype_names"

text \<open>A property bag that leaves the constructor, the prototype and the hook of the
  component alone.\<close>

definition ordinary_props :: "props \<Rightarrow> bool" where
  "ordinary_props properties =
     (''constructor'' \<notin> set (map fst properties) \<and> ''__proto__'' \<notin> set (map fst properties) \<and>
      ''onAttached'' \<notin> set (map fst properties))"

fun ordinary_op :: "op \<Rightarrow> bool" where
  "ordinary_op (Attach eid class_name properties) =
     (class_name \<notin> set reserved_names \<and> ordinary_props properties)"
| "ordinary_op (Detach eid class_name) = (class_name \<notin> set reserved_names)"

text \<open>An entity as its constructor and ordinary calls leave it: stored under its id,
  with its three fields, and with the components of its dictionary mirrored on the
  entity object under names that are not reserved.\<close>

definition entity_ok :: "idkey \<times> Entity \<Rightarrow> bool" where
  "entity_ok p =
     (\<not> ent_proto_replaced (snd p) \<and>
      id_key (snd p) = Inr (fst p) \<and>
      map_of (ent_props (snd p)) ''components'' = Some (EDict (ent_components (snd p))) \<and>
      map_of (ent_props (snd p)) ''ecs'' = Some EWorld \<and>
      map fst (ent_props (snd p)) =
        [''id'', ''components'', ''ecs''] @ map fst (ent_components (snd p)) \<and>
      distinct (map fst (ent_components (snd p))) \<and>
      list_all (\<lambda>T. T \<notin> set reserved_names) (map fst (ent_components (snd p))))"

text \<open>What an ordinary \<open>addComponent\<close> and an ordinary \<open>removeComponent\<close> make of
  such an entity.\<close>

definition with_component :: "string \<Rightarrow> component \<Rightarrow> Entity \<Rightarrow> Entity" where
  "with_component name c e =
     e\<lparr>ent_props :=
         AList.update ''components'' (EDict (AList.update name c (ent_components e)))
           (AList.update name (EComponent c) (ent_props e))\<rparr>"

definition without_component :: "string \<Rightarrow> Entity \<Rightarrow> Entity" where
  "without_component name e =
     e\<lparr>ent_props :=
         AList.update ''components'' (EDict (AList.delete name (ent_components e)))
           (AList.delete name (ent_props e))\<rparr>"

text \<open>The query after its listener has run.\<close>

definition after_listener :: "idkey \<Rightarrow> Entity \<Rightarrow> query \<Rightarrow> query" where
  "after_listener eid entity q =
     (case componentAddedToEntity eid entity q of Returned q' \<Rightarrow> q' | _ \<Rightarrow> q)"

text \<open>Every component an entity holds is of a registered class.\<close>

definition registered_ok :: "ECS \<Rightarrow> idkey \<times> Entity \<Rightarrow> bool" where
  "registered_ok w p =
     list_all (\<lambda>T. T \<in> set (map fst (ecs_components w))) (map fst (ent_components (snd p)))"

text \<open>A class is registered under its own name, and its presence set is the set of its
  holders.\<close>

definition presence_ok :: "ECS \<Rightarrow> string \<times> class_object \<Rightarrow> bool" where
  "presence_ok w p =
     (fst (snd p) = fst p \<and>
      map_option cls_entities (map_of (class_objects w) (snd p)) = Some (holders w (fst p)))"

definition consistent :: "ECS \<Rightarrow> bool" where
  "consistent w =
     (distinct (map fst (ecs_entities w)) \<and> distinct (map fst (ecs_components w)) \<and>
      list_all entity_ok (ecs_entities w) \<and>
      list_all (registered_ok w) (ecs_entities w) \<and>
      list_all (presence_ok w) (ecs_components w))"

subsection \<open>Exact query caches\<close>

text \<open>The entities that hold a component of every name a query requires.\<close>

definition matching :: "ECS \<Rightarrow> query \<Rightarrow> idkey set" where
  "matching w q =
     set (filter (\<lambda>entity_id. list_all (\<lambda>T. entity_id \<in> holders w T) (q_component_names q))
            (map fst (ecs_entities w)))"

text \<open>A query compiled from pairwise different names of registered classes, whose
  cache has exactly the matching ids as keys.\<close>

definition query_ok :: "ECS \<Rightarrow> string \<times> query \<Rightarrow> bool" where
  "query_ok w p =
     (distinct (q_component_names (snd p)) \<and>
      list_all (\<lambda>T. T \<in> set (map fst (ecs_components w))) (q_component_names (snd p)) \<and>
      q_components (snd p) = map (class_ref w) (q_component_names (snd p)) \<and>
      set (map fst (q_entities (snd p))) = matching w (snd p))"

definition queries_exact :: "ECS \<Rightarrow> bool" where
  "queries_exact w = list_all (query_ok w) (ecs_queries w)"

subsection \<open>Example worlds\<close>

text \<open>One entity, no component class registered.\<close>

definition world_bare :: "ECS" where
  "world_bare = Entity_new ''e1'' ECS_new"

text \<open>Class \<open>Position\<close> registered, two entities.\<close>

definition world_two :: "ECS" where
  "world_two = Entity_new ''e2'' (Entity_new ''e1'' (registerComponent (''Position'', 0) ECS_new))"

text \<open>As \<open>world_two\<close>, with a \<open>Position\<close> attached to the first entity.\<close>

definition world_held :: "ECS" where
  "world_held = snd (addComponent (Uuid ''e1'') ''Position'' [(''x'', PNumber 0)] world_two)"

text \<open>As \<open>world_held\<close>, after \<open>query(['Position', 'Position'])\<close>.\<close>

definition world_repeat :: "ECS" where
  "world_repeat = snd (query [''Position'', ''Position''] world_held)"

text \<open>Both entities get a \<open>Position\<close> and the query \<open>['Position']\<close> is
  created.\<close>

definition world_queried :: "ECS" where
  "world_queried =
     snd (query [''Position'']
       (run [Attach (Uuid ''e1'') ''Position'' [(''x'', PNumber 0)],
             Attach (Uuid ''e2'') ''Position'' [(''x'', PNumber 1)]]
          world_two))"

text \<open>Then the second entity's component is removed and attached again.\<close>

definition world_mixed :: "ECS" where
  "world_mixed =
     run [Detach (Uuid ''e2'') ''Position'', Attach (Uuid ''e2'') ''Position'' [(''x'', PNumber 2)]]
       world_queried"

text \<open>The query \<open>[]\<close> is created in a world without entities; then two entities are
  created and the first gets a \<open>Position\<close>.\<close>

definition world_empty_logic :: "ECS" where
  "world_empty_logic =
     run [Attach (Uuid ''e1'') ''Position'' [(''x'', PNumber 0)]]
       (Entity_new ''e2'' (Entity_new ''e1''
          (snd (query [] (registerComponent (''Position'', 0) ECS_new)))))"

text \<open>The component that \<open>addComponent(Position, {x: n})\<close> leaves on an entity, and an
  entity holding just that.\<close>

definition position_component :: "int \<Rightarrow> component" where
  "position_component n =
     \<lparr>comp_class = ''Position'', comp_props = [(''x'', Given (PNumber n)), (''entity'', Ref)],
      comp_proto_replaced = False\<rparr>"

definition entity_with_position :: "string \<Rightarrow> int \<Rightarrow> Entity" where
  "entity_with_position uuid n =
     \<lparr>ent_props =
        [(''id'', EUuid uuid), (''components'', EDict [(''Position'', position_component n)]),
         (''ecs'', EWorld), (''Position'', EComponent (position_component n))],
      ent_proto_replaced = False\<rparr>"

text \<open>The queries compiled from \<open>['Position']\<close> and from \<open>['Position', 'Position']\<close>,
  with a given cache.\<close>

definition position_query :: "(idkey \<times> qvalue) list \<Rightarrow> query" where
  "position_query cache =
     \<lparr>q_components = [Some (''Position'', 0)], q_component_names = [''Position''],
      q_logic = [''Position''], q_entities = cache\<rparr>"

definition repeat_query :: "(idkey \<times> qvalue) list \<Rightarrow> query" where
  "repeat_query cache =
     \<lparr>q_components = [Some (''Position'', 0), Some (''Position'', 0)],
      q_component_names = [''Position'', ''Position''],
      q_logic = [''Position'', ''Position''], q_entities = cache\<rparr>"

text \<open>Worlds with component classes named like members of an entity: \<open>id\<close> and
  \<open>ecs\<close> registered, two entities.\<close>

definition world_members :: "ECS" where
  "world_members =
     Entity_new ''e2'' (Entity_new ''e1''
       (registerComponent (''ecs'', 0) (registerComponent (''id'', 0) ECS_new)))"

text \<open>A second world registers the class \<open>Position\<close> that \<open>world_held\<close> uses.\<close>

definition world_held_after_second_world :: "ECS" where
  "world_held_after_second_world =
     back_in world_held (registerComponent (''Position'', 0) (ECS_new_beside world_held))"

section \<open>Properties\<close>

subsection \<open>Dictionaries\<close>

lemma set_update_distinct:
  "distinct (map fst al) \<Longrightarrow> map_of al k = Some v \<Longrightarrow>
   set (AList.update k v' al) = insert (k, v') (set al - {(k, v)})"
  by (induction al) (auto split: if_splits)

lemma set_update_fresh:
  "k \<notin> fst ` set al \<Longrightarrow> set (AList.update k v al) = insert (k, v) (set al)"
  by (induction al) auto

lemma list_all_update:
  assumes "list_all P al" "P (k, v)"
  shows "list_all P (AList.update k v al)"
  using assms by (induction al) auto

lemma list_all_map_of:
  "distinct (map fst al) \<Longrightarrow> list_all P al \<longleftrightarrow> (\<forall>k v. map_of al k = Some v \<longrightarrow> P (k, v))"
  by (induction al) (auto simp: image_iff rev_image_eqI)

lemma map_entry_update_same:
  "AList.map_entry k f (AList.update k v al) = AList.update k (f v) al"
  by (induction al) auto

lemma map_entry_update_other:
  "k \<noteq> k' \<Longrightarrow> AList.map_entry k f (AList.update k' v al) = AList.update k' v (AList.map_entry k f al)"
  by (induction al) auto


lemma reserved_namesD:
  assumes "T \<notin> set reserved_names"
  shows "T \<noteq> ''id''" "T \<noteq> ''components''" "T \<noteq> ''ecs''" "T \<noteq> ''__proto__''"
    "T \<noteq> ''addComponent''" "T \<noteq> ''removeComponent''"
    "T \<notin> set entity_prototype_names" "T \<notin> set object_prototype_names"
  using assms
  by (auto simp: reserved_names_def entity_prototype_names_def object_prototype_names_def)

lemma js_in_ordinary:
  "T \<notin> set reserved_names \<Longrightarrow> js_in T al \<longleftrightarrow> T \<in> set (map fst al)"
  by (simp add: js_in_def reserved_namesD)

subsection \<open>Components made from ordinary property bags\<close>

lemma assign_ordinary:
  assumes "''__proto__'' \<notin> set (map fst properties)"
  shows "comp_proto_replaced (assign properties c) = comp_proto_replaced c \<and>
         comp_class (assign properties c) = comp_class c \<and>
         set (map fst (comp_props (assign properties c))) =
           set (map fst (comp_props c)) \<union> set (map fst properties)"
  using assms
proof (induction properties arbitrary: c)
  case Nil
  then show ?case by simp
next
  case (Cons p properties)
  obtain k v where p: "p = (k, v)" by (cases p)
  have k: "k \<noteq> ''__proto__''" and rest: "''__proto__'' \<notin> set (map fst properties)"
    using Cons.prems by (auto simp: p)
  show ?case
    using Cons.IH[OF rest, of "c\<lparr>comp_props := AList.update k (Given v) (comp_props c)\<rparr>"] k
    by (auto simp: p dom_update)
qed

lemma Component_new_ordinary:
  assumes "ordinary_props properties"
  shows "constructor_name (Component_new class_name properties) = class_name"
    and "\<not> comp_proto_replaced (Component_new class_name properties)"
    and "''onAttached'' \<notin> set (map fst (comp_props (Component_new class_name properties)))"
proof -
  have p: "''__proto__'' \<notin> set (map fst properties)"
    and c: "''constructor'' \<notin> set (map fst properties)"
    and a: "''onAttached'' \<notin> set (map fst properties)"
    using assms by (simp_all add: ordinary_props_def)
  note n = assign_ordinary[OF p, of "\<lparr>comp_class = class_name, comp_props = [], comp_proto_replaced = False\<rparr>"]
  show "\<not> comp_proto_replaced (Component_new class_name properties)"
    using n by (simp add: Component_new_def)
  show "''onAttached'' \<notin> set (map fst (comp_props (Component_new class_name properties)))"
    using n a by (simp add: Component_new_def)
  have "''constructor'' \<notin> set (map fst (comp_props (Component_new class_name properties)))"
    using n c by (simp add: Component_new_def)
  then have "map_of (comp_props (Component_new class_name properties)) ''constructor'' = None"
    by (simp add: map_of_eq_None_iff)
  then show "constructor_name (Component_new class_name properties) = class_name"
    using n by (simp add: constructor_name_def Component_new_def)
qed

subsection \<open>Ordinary calls on an entity\<close>

lemma entity_ok_with_component:
  assumes "entity_ok (eid, e)" "T \<notin> set reserved_names"
  shows "ent_components (with_component T c e) = AList.update T c (ent_components e)"
    and "entity_ok (eid, with_component T c e)"
proof -
  note r = reserved_namesD[OF assms(2)]
  have keys: "map fst (ent_props e) = [''id'', ''components'', ''ecs''] @ map fst (ent_components e)"
    using assms(1) by (simp add: entity_ok_def)
  have mem: "T \<in> set (map fst (ent_props e)) \<longleftrightarrow> T \<in> set (map fst (ent_components e))"
    unfolding keys using r by simp
  show c: "ent_components (with_component T c e) = AList.update T c (ent_components e)"
    by (simp add: ent_components_def with_component_def update_conv')
  have k': "map fst (ent_props (with_component T c e)) =
            [''id'', ''components'', ''ecs''] @ map fst (AList.update T c (ent_components e))"
    using mem by (simp add: with_component_def update_keys keys)
  have np: "\<not> ent_proto_replaced (with_component T c e)"
    using assms(1) by (simp add: entity_ok_def with_component_def)
  have idk: "id_key (with_component T c e) = Inr eid"
    using assms(1) r by (simp add: entity_ok_def id_key_def with_component_def update_conv')
  have slot: "map_of (ent_props (with_component T c e)) ''components'' =
              Some (EDict (AList.update T c (ent_components e)))"
    by (simp add: with_component_def update_conv')
  have ecs: "map_of (ent_props (with_component T c e)) ''ecs'' = Some EWorld"
    using assms(1) r by (simp add: entity_ok_def with_component_def update_conv')
  have d: "distinct (map fst (AList.update T c (ent_components e)))"
    using assms(1) by (simp add: entity_ok_def distinct_update)
  have l: "list_all (\<lambda>T. T \<notin> set reserved_names) (map fst (AList.update T c (ent_components e)))"
    using assms by (auto simp: entity_ok_def list_all_iff update_keys)
  show "entity_ok (eid, with_component T c e)"
    unfolding entity_ok_def fst_conv snd_conv c
    using np idk slot ecs k' d l by simp
qed

lemma entity_ok_without_component:
  assumes "entity_ok (eid, e)" "T \<notin> set reserved_names"
  shows "ent_components (without_component T e) = AList.delete T (ent_components e)"
    and "entity_ok (eid, without_component T e)"
proof -
  note r = reserved_namesD[OF assms(2)]
  have keys: "map fst (ent_props e) = [''id'', ''components'', ''ecs''] @ map fst (ent_components e)"
    using assms(1) by (simp add: entity_ok_def)
  show c: "ent_components (without_component T e) = AList.delete T (ent_components e)"
    by (simp add: ent_components_def without_component_def update_conv')
  have k': "map fst (ent_props (without_component T e)) =
            [''id'', ''components'', ''ecs''] @ map fst (AList.delete T (ent_components e))"
    using r by (simp add: without_component_def update_keys delete_keys keys)
  have np: "\<not> ent_proto_replaced (without_component T e)"
    using assms(1) by (simp add: entity_ok_def without_component_def)
  have idk: "id_key (without_component T e) = Inr eid"
    using assms(1) r
    by (simp add: entity_ok_def id_key_def without_component_def update_conv' delete_conv')
  have slot: "map_of (ent_props (without_component T e)) ''components'' =
              Some (EDict (AList.delete T (ent_components e)))"
    by (simp add: without_component_def update_conv')
  have ecs: "map_of (ent_props (without_component T e)) ''ecs'' = Some EWorld"
    using assms(1) r
    by (simp add: entity_ok_def without_component_def update_conv' delete_conv')
  have d: "distinct (map fst (AList.delete T (ent_components e)))"
    using assms(1) by (simp add: entity_ok_def delete_keys distinct_removeAll)
  have l: "list_all (\<lambda>T. T \<notin> set reserved_names) (map fst (AList.delete T (ent_components e)))"
    using assms by (auto simp: entity_ok_def list_all_iff delete_keys)
  show "entity_ok (eid, without_component T e)"
    unfolding entity_ok_def fst_conv snd_conv c
    using np idk slot ecs k' d l by simp
qed

lemma attach_steps:
  assumes "entity_ok (eid, e)" "T \<notin> set reserved_names"
  shows "has_method ''addComponent'' e" "has_method ''removeComponent'' e"
    and "this_ecs_components e = World_table"
    and "set_in_components T c (set_own T c e) = Inr (with_component T c e)"
    and "this_ecs_components (with_component T c e) = World_table"
    and "id_key (with_component T c e) = Inr eid"
    and "attached_in_place T (with_component T c e) = with_component T (onAttached c) e"
proof -
  note r = reserved_namesD[OF assms(2)]
  have keys: "map fst (ent_props e) = [''id'', ''components'', ''ecs''] @ map fst (ent_components e)"
    and res: "list_all (\<lambda>T. T \<notin> set reserved_names) (map fst (ent_components e))"
    and np: "\<not> ent_proto_replaced e"
    and ecs: "map_of (ent_props e) ''ecs'' = Some EWorld"
    and comps: "map_of (ent_props e) ''components'' = Some (EDict (ent_components e))"
    and idk: "id_key e = Inr eid"
    using assms(1) by (simp_all add: entity_ok_def)
  have "''addComponent'' \<notin> set (map fst (ent_components e))"
    "''removeComponent'' \<notin> set (map fst (ent_components e))"
    using res by (auto simp: list_all_iff reserved_names_def entity_prototype_names_def)
  then show "has_method ''addComponent'' e" "has_method ''removeComponent'' e"
    using np by (simp_all add: has_method_def keys)
  show "this_ecs_components e = World_table" by (simp add: this_ecs_components_def ecs)
  show "set_in_components T c (set_own T c e) = Inr (with_component T c e)"
    using r comps by (simp add: set_in_components_def set_own_def with_component_def update_conv')
  show "this_ecs_components (with_component T c e) = World_table"
    using r ecs by (simp add: this_ecs_components_def with_component_def update_conv')
  show "id_key (with_component T c e) = Inr eid"
    using r idk by (simp add: id_key_def with_component_def update_conv')
  show "attached_in_place T (with_component T c e) = with_component T (onAttached c) e"
    using r
    by (simp add: attached_in_place_def with_component_def map_entry_update_same
          map_entry_update_other)
qed

lemma detach_steps:
  assumes "entity_ok (eid, e)" "T \<notin> set reserved_names"
  shows "entity_in T e \<longleftrightarrow> holds e T"
    and "delete_in_components T (e\<lparr>ent_props := AList.delete T (ent_props e)\<rparr>) =
         Inr (without_component T e)"
    and "this_ecs_components (without_component T e) = World_table"
    and "id_key (without_component T e) = Inr eid"
proof -
  note r = reserved_namesD[OF assms(2)]
  have keys: "map fst (ent_props e) = [''id'', ''components'', ''ecs''] @ map fst (ent_components e)"
    and ecs: "map_of (ent_props e) ''ecs'' = Some EWorld"
    and comps: "map_of (ent_props e) ''components'' = Some (EDict (ent_components e))"
    and idk: "id_key e = Inr eid"
    using assms(1) by (simp_all add: entity_ok_def)
  show "entity_in T e \<longleftrightarrow> holds e T"
    using r by (simp add: entity_in_def holds_def keys)
  show "delete_in_components T (e\<lparr>ent_props := AList.delete T (ent_props e)\<rparr>) =
         Inr (without_component T e)"
    using r comps by (simp add: delete_in_components_def without_component_def delete_conv')
  show "this_ecs_components (without_component T e) = World_table"
    using r ecs by (simp add: this_ecs_components_def without_component_def update_conv' delete_conv')
  show "id_key (without_component T e) = Inr eid"
    using r idk by (simp add: id_key_def without_component_def update_conv' delete_conv')
qed

lemma listener_ok:
  assumes "entity_ok (eid, e)"
  shows "componentAddedToEntity eid e q =
         Returned
           (if length (filter (\<lambda>property. property \<in> set (q_component_names q))
                         (map fst (ent_components e))) = length (q_components q)
            then q\<lparr>q_entities := AList.update eid (QEntity eid) (q_entities q)\<rparr> else q)"
proof -
  have "map_of (ent_props e) ''components'' = Some (EDict (ent_components e))"
    and "id_key e = Inr eid"
    using assms by (simp_all add: entity_ok_def)
  then show ?thesis
    by (simp add: componentAddedToEntity_def component_keys_def Let_def)
qed

lemma dispatch_ok:
  assumes "entity_ok (eid, e)"
  shows "dispatch_component_added eid e qs =
         (Returned (), map (\<lambda>p. (fst p, after_listener eid e (snd p))) qs)"
proof (induction qs)
  case Nil
  then show ?case by simp
next
  case (Cons p qs)
  obtain k q where p: "p = (k, q)" by (cases p)
  show ?case
    using Cons by (simp add: p after_listener_def listener_ok[OF assms])
qed

subsection \<open>Holders\<close>

lemma holders_iff:
  "a \<in> holders w T \<longleftrightarrow> (\<exists>x. (a, x) \<in> set (ecs_entities w) \<and> holds x T)"
  unfolding holders_def by (auto simp: image_iff)

lemma holders_update_iff:
  assumes "distinct (map fst (ecs_entities w))"
    and "map_of (ecs_entities w) eid = Some e"
    and "ecs_entities w' = AList.update eid e' (ecs_entities w)"
  shows "a \<in> holders w' T \<longleftrightarrow> (if a = eid then holds e' T else a \<in> holders w T)"
proof -
  have uniq: "\<And>x. (eid, x) \<in> set (ecs_entities w) \<Longrightarrow> x = e"
    using assms(1,2) by (metis map_of_is_SomeI option.inject)
  have s: "set (ecs_entities w') = insert (eid, e') (set (ecs_entities w) - {(eid, e)})"
    using set_update_distinct[OF assms(1,2)] assms(3) by simp
  show ?thesis
    unfolding holders_iff s using uniq by auto
qed

lemma holders_self:
  assumes "distinct (map fst (ecs_entities w))"
    and "map_of (ecs_entities w) eid = Some e"
  shows "eid \<in> holders w T \<longleftrightarrow> holds e T"
proof -
  have e: "(eid, e) \<in> set (ecs_entities w)" using assms(2) by (rule map_of_SomeD)
  have uniq: "\<And>x. (eid, x) \<in> set (ecs_entities w) \<Longrightarrow> x = e"
    using assms(1,2) by (metis map_of_is_SomeI option.inject)
  show ?thesis unfolding holders_iff using e uniq by blast
qed

lemma holders_subset: "holders w T \<subseteq> set (map fst (ecs_entities w))"
  by (auto simp: holders_def)

subsection \<open>What the ordinary calls return\<close>

lemma consistentD:
  assumes "consistent w"
  shows "distinct (map fst (ecs_entities w))" "distinct (map fst (ecs_components w))"
    and "list_all entity_ok (ecs_entities w)"
    and "list_all (registered_ok w) (ecs_entities w)"
    and "list_all (presence_ok w) (ecs_components w)"
    and "\<And>eid e. map_of (ecs_entities w) eid = Some e \<Longrightarrow> entity_ok (eid, e)"
    and "\<And>eid e. map_of (ecs_entities w) eid = Some e \<Longrightarrow> registered_ok w (eid, e)"
    and "\<And>T cls. map_of (ecs_components w) T = Some cls \<Longrightarrow> presence_ok w (T, cls)"
  using assms
  by (auto simp: consistent_def list_all_iff dest: map_of_SomeD)

lemma registered_class:
  assumes "consistent w" "T \<in> set (map fst (ecs_components w))"
  obtains cls statics where "map_of (ecs_components w) T = Some cls"
    and "fst cls = T"
    and "map_of (class_objects w) cls = Some statics"
    and "cls_entities statics = holders w T"
proof -
  obtain cls where c: "map_of (ecs_components w) T = Some cls"
    using assms(2) by (metis map_of_eq_None_iff not_Some_eq set_map)
  have p: "presence_ok w (T, cls)" using consistentD(8)[OF assms(1) c] .
  then obtain statics where "map_of (class_objects w) cls = Some statics"
    "cls_entities statics = holders w T"
    by (auto simp: presence_ok_def)
  with c p that show thesis by (simp add: presence_ok_def)
qed

lemma addComponent_ordinary:
  assumes "entity_ok (eid, self)" "map_of (ecs_entities w) eid = Some self"
    and "T \<notin> set reserved_names" "ordinary_props properties"
    and "map_of (ecs_components w) T = Some cls" "map_of (class_objects w) cls = Some statics"
    and "self' = with_component T (onAttached (Component_new T properties)) self"
  shows "addComponent eid T properties w =
         (Returned (),
          w\<lparr>ecs_entities := AList.update eid self' (ecs_entities w),
            class_objects :=
              AList.update cls (statics\<lparr>cls_entities := insert eid (cls_entities statics)\<rparr>)
                (class_objects w),
            ecs_queries := map (\<lambda>p. (fst p, after_listener eid self' (snd p))) (ecs_queries w)\<rparr>)"
proof -
  note c = Component_new_ordinary[OF assms(4), of T]
  note s = attach_steps[OF assms(1,3)]
  have ok': "entity_ok (eid, self')"
    unfolding assms(7) by (rule entity_ok_with_component(2)[OF assms(1,3)])
  have reg: "js_in T (ecs_components w)"
    using assms(5) by (simp add: js_in_def) (metis map_of_eq_None_iff option.distinct(1) image_iff)
  show ?thesis
    using assms(2,5,6) c s reg
    by (simp add: addComponent_def Let_def mark_present_def put_entity_def update_last
          dispatch_ok[OF ok', unfolded assms(7)] assms(7))
qed

lemma addComponent_unregistered_ordinary:
  assumes "entity_ok (eid, self)" "map_of (ecs_entities w) eid = Some self"
    and "T \<notin> set reserved_names" "ordinary_props properties"
    and "T \<notin> set (map fst (ecs_components w))"
  shows "addComponent eid T properties w =
         (Threw (case component_string (Component_new T properties) of
                   Inl err \<Rightarrow> err | Inr text \<Rightarrow> NotRegistered text), w)"
proof -
  note c = Component_new_ordinary[OF assms(4), of T]
  note s = attach_steps(1,3)[OF assms(1,3)]
  have reg: "\<not> js_in T (ecs_components w)"
    using assms(3,5) by (simp add: js_in_ordinary)
  show ?thesis
    using assms(2) c s reg
    by (simp add: addComponent_def Let_def split: sum.split)
qed

lemma removeComponent_ordinary:
  assumes "entity_ok (eid, self)" "map_of (ecs_entities w) eid = Some self"
    and "T \<notin> set reserved_names" "holds self T"
    and "map_of (ecs_components w) T = Some cls" "map_of (class_objects w) cls = Some statics"
    and "w2 = w\<lparr>ecs_entities := AList.update eid (without_component T self) (ecs_entities w),
                class_objects :=
                  AList.update cls (statics\<lparr>cls_entities := cls_entities statics - {eid}\<rparr>)
                    (class_objects w)\<rparr>"
  shows "removeComponent eid T w =
         (fst (refresh_queries w2 T (ecs_queries w)),
          w2\<lparr>ecs_queries := snd (refresh_queries w2 T (ecs_queries w))\<rparr>)"
proof -
  note s = attach_steps(2)[OF assms(1,3)] detach_steps[OF assms(1,3)]
  have q: "ecs_queries w2 = ecs_queries w" by (simp add: assms(7))
  show ?thesis
    using assms(2,4,5,6) s
    by (simp add: removeComponent_def Let_def mark_absent_def put_entity_def
          assms(7)[symmetric] q case_prod_beta)
qed

lemma removeComponent_not_held:
  assumes "entity_ok (eid, self)" "map_of (ecs_entities w) eid = Some self"
    and "T \<notin> set reserved_names" "\<not> holds self T"
  shows "removeComponent eid T w = (Threw (ReferenceError ''component_name''), w)"
  using assms(2,4) attach_steps(2)[OF assms(1,3)] detach_steps(1)[OF assms(1,3)]
  by (simp add: removeComponent_def)

subsection \<open>Consistency is kept by ordinary calls\<close>

lemma holds_with_component:
  assumes "entity_ok (eid, e)" "T \<notin> set reserved_names"
  shows "holds (with_component T c e) N \<longleftrightarrow> N = T \<or> holds e N"
  unfolding holds_def entity_ok_with_component(1)[OF assms]
  using dom_update[of T c "ent_components e"] by auto

lemma holds_without_component:
  assumes "entity_ok (eid, e)" "T \<notin> set reserved_names"
  shows "holds (without_component T e) N \<longleftrightarrow> N \<noteq> T \<and> holds e N"
  unfolding holds_def entity_ok_without_component(1)[OF assms]
  by (auto simp: delete_keys)

lemma consistent_frame:
  assumes "ecs_entities w' = ecs_entities w" "ecs_components w' = ecs_components w"
    and "class_objects w' = class_objects w"
  shows "consistent w' = consistent w"
proof -
  have h: "\<And>T. holders w' T = holders w T" by (simp add: holders_def assms)
  have "registered_ok w' = registered_ok w" by (rule ext) (simp add: registered_ok_def assms)
  moreover have "presence_ok w' = presence_ok w" by (rule ext) (simp add: presence_ok_def assms h)
  ultimately show ?thesis by (simp add: consistent_def assms)
qed

lemma consistent_step:
  assumes "consistent w" "map_of (ecs_entities w) eid = Some self" "entity_ok (eid, self')"
    and "map_of (ecs_components w) T = Some cls" "map_of (class_objects w) cls = Some statics"
    and others: "\<And>N. N \<noteq> T \<Longrightarrow> holds self' N = holds self N"
    and "ecs_entities w' = AList.update eid self' (ecs_entities w)"
    and "ecs_components w' = ecs_components w"
    and "class_objects w' =
           AList.update cls
             (statics\<lparr>cls_entities :=
                if holds self' T then insert eid (cls_entities statics)
                else cls_entities statics - {eid}\<rparr>) (class_objects w)"
  shows "consistent w'"
proof -
  note d = consistentD[OF assms(1)]
  have ok: "entity_ok (eid, self)" using d(6)[OF assms(2)] .
  have reg: "registered_ok w (eid, self)" using d(7)[OF assms(2)] .
  have Treg: "T \<in> set (map fst (ecs_components w))"
    using assms(4) by (metis map_of_eq_None_iff option.distinct(1) set_map)
  have d1: "distinct (map fst (ecs_entities w'))"
    using d(1) by (simp add: assms(7) distinct_update)
  have d2: "distinct (map fst (ecs_components w'))"
    using d(2) by (simp add: assms(8))
  have e: "list_all entity_ok (ecs_entities w')"
    unfolding assms(7) by (rule list_all_update[OF d(3) assms(3)])
  have rc: "registered_ok w' = registered_ok w"
    by (rule ext) (simp add: registered_ok_def assms(8))
  have "N \<in> set (map fst (ecs_components w))" if "holds self' N" for N
  proof (cases "N = T")
    case True
    then show ?thesis using Treg by simp
  next
    case False
    then have "holds self N" using others that by simp
    then show ?thesis using reg by (auto simp: registered_ok_def list_all_iff holds_def)
  qed
  then have "registered_ok w (eid, self')"
    by (simp add: registered_ok_def list_all_iff holds_def)
  then have r: "list_all (registered_ok w') (ecs_entities w')"
    unfolding assms(7) rc by (rule list_all_update[OF d(4)])
  have h: "\<And>a N. a \<in> holders w' N \<longleftrightarrow> (if a = eid then holds self' N else a \<in> holders w N)"
    by (rule holders_update_iff[OF d(1) assms(2) assms(7)])
  have hs: "\<And>N. eid \<in> holders w N \<longleftrightarrow> holds self N"
    by (rule holders_self[OF d(1) assms(2)])
  have p: "presence_ok w' (N, c)" if m: "map_of (ecs_components w) N = Some c" for N c
  proof -
    have pw: "presence_ok w (N, c)" using d(8)[OF m] .
    then have name: "fst c = N"
      and st: "map_option cls_entities (map_of (class_objects w) c) = Some (holders w N)"
      by (simp_all add: presence_ok_def)
    show ?thesis
    proof (cases "N = T")
      case True
      then have c: "c = cls" using m assms(4) by simp
      have st': "cls_entities statics = holders w T"
        using st assms(5) by (simp add: c True)
      have "(if holds self' T then insert eid (holders w T) else holders w T - {eid}) = holders w' T"
        by (rule set_eqI) (simp add: h)
      moreover have "fst cls = T" using name by (simp add: c True)
      ultimately show ?thesis
        unfolding presence_ok_def fst_conv snd_conv True c assms(9)
        by (simp add: update_conv' st' split: if_splits)
    next
      case False
      then have c: "c \<noteq> cls"
        using name d(8)[OF assms(4)] by (auto simp: presence_ok_def)
      have "holders w' N = holders w N"
        by (rule set_eqI) (simp add: h hs others[OF False])
      then show ?thesis
        using st c by (simp add: presence_ok_def name assms(9) update_conv')
    qed
  qed
  have "list_all (presence_ok w') (ecs_components w')"
    unfolding assms(8) list_all_map_of[OF d(2)] using p by blast
  with d1 d2 e r show ?thesis by (simp add: consistent_def)
qed

lemma consistent_addComponent:
  assumes "consistent w" "T \<notin> set reserved_names" "ordinary_props properties"
  shows "consistent (snd (addComponent eid T properties w))"
proof (cases "map_of (ecs_entities w) eid")
  case None
  then show ?thesis using assms(1) by (simp add: addComponent_def)
next
  case (Some self)
  have ok: "entity_ok (eid, self)" using consistentD(6)[OF assms(1) Some] .
  show ?thesis
  proof (cases "T \<in> set (map fst (ecs_components w))")
    case False
    show ?thesis
      unfolding addComponent_unregistered_ordinary[OF ok Some assms(2,3) False]
      using assms(1) by simp
  next
    case True
    obtain cls statics where c: "map_of (ecs_components w) T = Some cls"
      and s: "map_of (class_objects w) cls = Some statics"
      using registered_class[OF assms(1) True] by metis
    define self' where "self' = with_component T (onAttached (Component_new T properties)) self"
    note res = addComponent_ordinary[OF ok Some assms(2,3) c s self'_def]
    have ok': "entity_ok (eid, self')"
      unfolding self'_def by (rule entity_ok_with_component(2)[OF ok assms(2)])
    have hT: "holds self' T" by (simp add: self'_def holds_with_component[OF ok assms(2)])
    show ?thesis
      unfolding res snd_conv
      by (rule consistent_step[OF assms(1) Some ok' c s])
        (simp_all add: hT self'_def holds_with_component[OF ok assms(2)])
  qed
qed

lemma consistent_removeComponent:
  assumes "consistent w" "T \<notin> set reserved_names"
  shows "consistent (snd (removeComponent eid T w))"
proof (cases "map_of (ecs_entities w) eid")
  case None
  then show ?thesis using assms(1) by (simp add: removeComponent_def)
next
  case (Some self)
  have ok: "entity_ok (eid, self)" using consistentD(6)[OF assms(1) Some] .
  show ?thesis
  proof (cases "holds self T")
    case False
    show ?thesis
      unfolding removeComponent_not_held[OF ok Some assms(2) False]
      using assms(1) by simp
  next
    case True
    have "registered_ok w (eid, self)" using consistentD(7)[OF assms(1) Some] .
    then have reg: "T \<in> set (map fst (ecs_components w))"
      using True by (auto simp: registered_ok_def list_all_iff holds_def)
    obtain cls statics where c: "map_of (ecs_components w) T = Some cls"
      and s: "map_of (class_objects w) cls = Some statics"
      using registered_class[OF assms(1) reg] by metis
    define w2 where
      "w2 = w\<lparr>ecs_entities := AList.update eid (without_component T self) (ecs_entities w),
              class_objects :=
                AList.update cls (statics\<lparr>cls_entities := cls_entities statics - {eid}\<rparr>)
                  (class_objects w)\<rparr>"
    note res = removeComponent_ordinary[OF ok Some assms(2) True c s w2_def]
    have ok': "entity_ok (eid, without_component T self)"
      by (rule entity_ok_without_component(2)[OF ok assms(2)])
    have c2: "consistent w2"
      by (rule consistent_step[OF assms(1) Some ok' c s])
        (simp_all add: w2_def holds_without_component[OF ok assms(2)])
    have "consistent (w2\<lparr>ecs_queries := snd (refresh_queries w2 T (ecs_queries w))\<rparr>) =
          consistent w2"
      by (rule consistent_frame) simp_all
    then show ?thesis
      unfolding res snd_conv using c2 by simp
  qed
qed

lemma consistent_apply_op:
  "consistent w \<Longrightarrow> ordinary_op op \<Longrightarrow> consistent (apply_op op w)"
  by (cases op) (simp_all add: consistent_addComponent consistent_removeComponent)

lemma consistent_run:
  "consistent w \<Longrightarrow> list_all ordinary_op ops \<Longrightarrow> consistent (run ops w)"
  by (induction ops arbitrary: w) (simp_all add: consistent_apply_op)

subsection \<open>Rebuilding a cache\<close>

lemma count_names:
  assumes "distinct names" "distinct keys"
  shows "length (filter (\<lambda>p. p \<in> set names) keys) = length names \<longleftrightarrow> set names \<subseteq> set keys"
proof -
  have "distinct (filter (\<lambda>p. p \<in> set names) keys)" using assms(2) by simp
  then have "length (filter (\<lambda>p. p \<in> set names) keys) = card (set (filter (\<lambda>p. p \<in> set names) keys))"
    by (rule distinct_card[symmetric])
  also have "set (filter (\<lambda>p. p \<in> set names) keys) = set keys \<inter> set names" by auto
  finally have l: "length (filter (\<lambda>p. p \<in> set names) keys) = card (set keys \<inter> set names)" .
  have r: "length names = card (set names)" using assms(1) by (simp add: distinct_card)
  show ?thesis
  proof
    assume "length (filter (\<lambda>p. p \<in> set names) keys) = length names"
    then have "card (set keys \<inter> set names) = card (set names)" using l r by simp
    then have "set keys \<inter> set names = set names"
      by (intro card_subset_eq) auto
    then show "set names \<subseteq> set keys" by blast
  next
    assume "set names \<subseteq> set keys"
    then have "set keys \<inter> set names = set names" by blast
    then show "length (filter (\<lambda>p. p \<in> set names) keys) = length names" using l r by simp
  qed
qed

lemma length_filter_all: "length (filter P xs) = length xs \<longleftrightarrow> list_all P xs"
proof (induction xs)
  case Nil
  then show ?case by simp
next
  case (Cons x xs)
  have "length (filter P xs) \<le> length xs" by simp
  then have "length (filter P xs) \<noteq> Suc (length xs)" by linarith
  then show ?case using Cons by auto
qed

lemma count_present_resolved:
  assumes "consistent w"
    and "list_all (\<lambda>T. T \<in> set (map fst (ecs_components w))) names"
  shows "count_present w a (map (class_ref w) names) n =
         Returned (n + length (filter (\<lambda>T. a \<in> holders w T) names))"
  using assms(2)
proof (induction names arbitrary: n)
  case Nil
  then show ?case by simp
next
  case (Cons T names)
  then have "T \<in> set (map fst (ecs_components w))" by simp
  then obtain cls statics where c: "map_of (ecs_components w) T = Some cls"
    and s: "map_of (class_objects w) cls = Some statics"
    and p: "cls_entities statics = holders w T"
    using registered_class[OF assms(1)] by metis
  show ?case using Cons by (simp add: class_ref_def c s p)
qed

lemma refresh_entities_exact:
  assumes "consistent w"
    and "list_all (\<lambda>T. T \<in> set (map fst (ecs_components w))) (q_component_names q)"
    and "q_components q = map (class_ref w) (q_component_names q)"
  shows "fst (refresh_entities w q ids cache) = Returned () \<and>
         fst ` set (snd (refresh_entities w q ids cache)) =
           fst ` set cache \<union>
           {a \<in> set ids. list_all (\<lambda>T. a \<in> holders w T) (q_component_names q)}"
proof (induction ids arbitrary: cache)
  case Nil
  then show ?case by simp
next
  case (Cons a ids)
  have c: "count_present w a (q_components q) 0 =
           Returned (length (filter (\<lambda>T. a \<in> holders w T) (q_component_names q)))"
    using count_present_resolved[OF assms(1,2), of a 0] by (simp add: assms(3))
  have l: "length (q_components q) = length (q_component_names q)" by (simp add: assms(3))
  show ?case
    using Cons[of "AList.update a QTrue cache"] Cons[of cache]
    by (auto simp: c l length_filter_all dom_update)
qed

lemma refresh_exact:
  assumes "consistent w"
    and "list_all (\<lambda>T. T \<in> set (map fst (ecs_components w))) (q_component_names q)"
    and "q_components q = map (class_ref w) (q_component_names q)"
  shows "fst (refresh w q) = Returned () \<and>
         snd (refresh w q) = q\<lparr>q_entities := q_entities (snd (refresh w q))\<rparr> \<and>
         set (map fst (q_entities (snd (refresh w q)))) = matching w q"
  using refresh_entities_exact[OF assms, of "map fst (ecs_entities w)" "[]"]
  by (simp add: refresh_def case_prod_beta matching_def)

subsection \<open>Caches stay exact under ordinary calls\<close>

lemma matching_cong:
  "ecs_entities w' = ecs_entities w \<Longrightarrow> q_component_names q' = q_component_names q \<Longrightarrow>
   matching w' q' = matching w q"
  by (simp add: matching_def holders_def)

lemma class_ref_cong: "ecs_components w' = ecs_components w \<Longrightarrow> class_ref w' = class_ref w"
  by (rule ext) (simp add: class_ref_def)

lemma query_ok_cong:
  assumes "ecs_entities w' = ecs_entities w" "ecs_components w' = ecs_components w"
  shows "query_ok w' p = query_ok w p"
  by (simp add: query_ok_def matching_cong[OF assms(1)] assms(2) class_ref_cong[OF assms(2)])

lemma queries_exact_frame:
  assumes "ecs_entities w' = ecs_entities w" "ecs_components w' = ecs_components w"
  shows "queries_exact w' = list_all (query_ok w) (ecs_queries w')"
proof -
  have "query_ok w' = query_ok w"
    by (rule ext) (rule query_ok_cong, simp_all add: assms)
  then show ?thesis by (simp add: queries_exact_def)
qed

lemma matching_update_iff:
  assumes "distinct (map fst (ecs_entities w))"
    and "map_of (ecs_entities w) eid = Some e"
    and "ecs_entities w' = AList.update eid e' (ecs_entities w)"
  shows "a \<in> matching w' q \<longleftrightarrow>
         (if a = eid then list_all (holds e') (q_component_names q) else a \<in> matching w q)"
proof -
  have "eid \<in> fst ` set (ecs_entities w)"
    using assms(2) by (metis domI dom_map_of_conv_image_fst)
  then have ids: "fst ` set (ecs_entities w') = fst ` set (ecs_entities w)"
    by (auto simp: assms(3) dom_update)
  have h: "\<And>T. a \<in> holders w' T \<longleftrightarrow> (if a = eid then holds e' T else a \<in> holders w T)"
    by (rule holders_update_iff[OF assms])
  show ?thesis
    using \<open>eid \<in> fst ` set (ecs_entities w)\<close>
    by (simp add: matching_def ids h list_all_iff)
qed

lemma matching_self:
  assumes "distinct (map fst (ecs_entities w))"
    and "map_of (ecs_entities w) eid = Some e"
  shows "eid \<in> matching w q \<longleftrightarrow> list_all (holds e) (q_component_names q)"
proof -
  have "eid \<in> fst ` set (ecs_entities w)"
    using assms(2) by (metis domI dom_map_of_conv_image_fst)
  then show ?thesis
    by (simp add: matching_def holders_self[OF assms] list_all_iff)
qed

lemma after_listener_ok:
  assumes "query_ok w (k, q)" "entity_ok (eid, self')"
  shows "q_component_names (after_listener eid self' q) = q_component_names q"
    and "q_components (after_listener eid self' q) = q_components q"
    and "set (map fst (q_entities (after_listener eid self' q))) =
         (if list_all (holds self') (q_component_names q)
          then insert eid (set (map fst (q_entities q))) else set (map fst (q_entities q)))"
proof -
  note l = listener_ok[OF assms(2), of q]
  show "q_component_names (after_listener eid self' q) = q_component_names q"
    and "q_components (after_listener eid self' q) = q_components q"
    by (simp_all add: after_listener_def l)
  have dn: "distinct (q_component_names q)"
    and ln: "length (q_components q) = length (q_component_names q)"
    using assms(1) by (simp_all add: query_ok_def)
  have dk: "distinct (map fst (ent_components self'))"
    using assms(2) by (simp add: entity_ok_def)
  have "length (filter (\<lambda>property. property \<in> set (q_component_names q))
           (map fst (ent_components self'))) = length (q_components q)
        \<longleftrightarrow> list_all (holds self') (q_component_names q)"
    unfolding ln count_names[OF dn dk] by (auto simp: list_all_iff holds_def)
  then show "set (map fst (q_entities (after_listener eid self' q))) =
         (if list_all (holds self') (q_component_names q)
          then insert eid (set (map fst (q_entities q))) else set (map fst (q_entities q)))"
    using dom_update[of eid "QEntity eid" "q_entities q"]
    by (simp add: after_listener_def l)
qed

lemma queries_exact_addComponent:
  assumes "consistent w" "queries_exact w" "T \<notin> set reserved_names" "ordinary_props properties"
  shows "queries_exact (snd (addComponent eid T properties w))"
proof (cases "map_of (ecs_entities w) eid")
  case None
  then show ?thesis using assms(2) by (simp add: addComponent_def)
next
  case (Some self)
  have ok: "entity_ok (eid, self)" using consistentD(6)[OF assms(1) Some] .
  show ?thesis
  proof (cases "T \<in> set (map fst (ecs_components w))")
    case False
    show ?thesis
      unfolding addComponent_unregistered_ordinary[OF ok Some assms(3,4) False]
      using assms(2) by simp
  next
    case True
    obtain cls statics where c: "map_of (ecs_components w) T = Some cls"
      and s: "map_of (class_objects w) cls = Some statics"
      using registered_class[OF assms(1) True] by metis
    define self' where "self' = with_component T (onAttached (Component_new T properties)) self"
    define w' where "w' = snd (addComponent eid T properties w)"
    note res = addComponent_ordinary[OF ok Some assms(3,4) c s self'_def]
    have ok': "entity_ok (eid, self')"
      unfolding self'_def by (rule entity_ok_with_component(2)[OF ok assms(3)])
    have d: "distinct (map fst (ecs_entities w))" using consistentD(1)[OF assms(1)] .
    have ents: "ecs_entities w' = AList.update eid self' (ecs_entities w)"
      by (simp add: w'_def res)
    have comps: "ecs_components w' = ecs_components w" by (simp add: w'_def res)
    have qs: "ecs_queries w' = map (\<lambda>p. (fst p, after_listener eid self' (snd p))) (ecs_queries w)"
      by (simp add: w'_def res)
    have mono: "\<And>N. holds self N \<Longrightarrow> holds self' N"
      by (simp add: self'_def holds_with_component[OF ok assms(3)])
    have step: "query_ok w' (k, after_listener eid self' q)" if q: "query_ok w (k, q)" for k q
    proof -
      note a = after_listener_ok[OF q ok']
      have m: "matching w' (after_listener eid self' q) = matching w' q"
        by (rule matching_cong) (simp_all add: a)
      have "set (map fst (q_entities (after_listener eid self' q))) = matching w' q"
      proof (rule set_eqI)
        fix a'
        have old: "set (map fst (q_entities q)) = matching w q" using q by (simp add: query_ok_def)
        show "a' \<in> set (map fst (q_entities (after_listener eid self' q))) \<longleftrightarrow> a' \<in> matching w' q"
          unfolding a(3) matching_update_iff[OF d Some ents] old
          using matching_self[OF d Some, of q] mono
          by (auto simp: list_all_iff)
      qed
      then show ?thesis
        using q by (simp add: query_ok_def a m comps class_ref_cong[OF comps])
    qed
    have "list_all (query_ok w') (map (\<lambda>p. (fst p, after_listener eid self' (snd p))) (ecs_queries w))"
      using assms(2) step
      by (auto simp: queries_exact_def list_all_iff)
    then show ?thesis
      unfolding w'_def[symmetric] queries_exact_def by (simp add: qs)
  qed
qed

lemma refresh_queries_ok:
  assumes "consistent w2"
    and "list_all (\<lambda>p. list_all (\<lambda>T. T \<in> set (map fst (ecs_components w2)))
                        (q_component_names (snd p)) \<and>
                      q_components (snd p) = map (class_ref w2) (q_component_names (snd p))) qs"
  shows "refresh_queries w2 T qs =
         (Returned (),
          map (\<lambda>p. (fst p, if T \<in> set (q_component_names (snd p))
                            then snd (refresh w2 (snd p)) else snd p)) qs)"
  using assms(2)
proof (induction qs)
  case Nil
  then show ?case by simp
next
  case (Cons p rest)
  obtain k q where p: "p = (k, q)" by (cases p)
  have "fst (refresh w2 q) = Returned ()"
    using refresh_exact[OF assms(1), of q] Cons.prems by (simp add: p)
  then obtain q' where r: "refresh w2 q = (Returned (), q')"
    by (cases "refresh w2 q") simp
  show ?case using Cons by (simp add: p r)
qed

lemma queries_exact_removeComponent:
  assumes "consistent w" "queries_exact w" "T \<notin> set reserved_names"
  shows "queries_exact (snd (removeComponent eid T w))"
proof (cases "map_of (ecs_entities w) eid")
  case None
  then show ?thesis using assms(2) by (simp add: removeComponent_def)
next
  case (Some self)
  have ok: "entity_ok (eid, self)" using consistentD(6)[OF assms(1) Some] .
  show ?thesis
  proof (cases "holds self T")
    case False
    show ?thesis
      unfolding removeComponent_not_held[OF ok Some assms(3) False]
      using assms(2) by simp
  next
    case True
    have "registered_ok w (eid, self)" using consistentD(7)[OF assms(1) Some] .
    then have reg: "T \<in> set (map fst (ecs_components w))"
      using True by (auto simp: registered_ok_def list_all_iff holds_def)
    obtain cls statics where c: "map_of (ecs_components w) T = Some cls"
      and s: "map_of (class_objects w) cls = Some statics"
      using registered_class[OF assms(1) reg] by metis
    define self' where "self' = without_component T self"
    define w2 where
      "w2 = w\<lparr>ecs_entities := AList.update eid (without_component T self) (ecs_entities w),
              class_objects :=
                AList.update cls (statics\<lparr>cls_entities := cls_entities statics - {eid}\<rparr>)
                  (class_objects w)\<rparr>"
    define w' where "w' = snd (removeComponent eid T w)"
    note res0 = removeComponent_ordinary[OF ok Some assms(3) True c s w2_def]
    have res: "w' = w2\<lparr>ecs_queries := snd (refresh_queries w2 T (ecs_queries w))\<rparr>"
      unfolding w'_def res0 by simp
    have d: "distinct (map fst (ecs_entities w))" using consistentD(1)[OF assms(1)] .
    have ents: "ecs_entities w' = AList.update eid self' (ecs_entities w)"
      by (simp add: res w2_def self'_def)
    have ents2: "ecs_entities w' = ecs_entities w2" by (simp add: res)
    have comps: "ecs_components w' = ecs_components w" by (simp add: res w2_def)
    have comps2: "ecs_components w2 = ecs_components w" by (simp add: w2_def)
    have cls2: "class_objects w' = class_objects w2" by (simp add: res)
    have "consistent w'" unfolding w'_def using assms(1,3) by (rule consistent_removeComponent)
    then have c2: "consistent w2"
      using consistent_frame[OF ents2 _ cls2] comps comps2 by simp
    have h: "\<And>N. holds self' N \<longleftrightarrow> N \<noteq> T \<and> holds self N"
      by (simp add: self'_def holds_without_component[OF ok assms(3)])
    have pre: "list_all (\<lambda>p. list_all (\<lambda>T. T \<in> set (map fst (ecs_components w2)))
                        (q_component_names (snd p)) \<and>
                      q_components (snd p) = map (class_ref w2) (q_component_names (snd p)))
                 (ecs_queries w)"
      using assms(2)
      by (auto simp: queries_exact_def query_ok_def list_all_iff comps2 class_ref_cong[OF comps2])
    have qs: "ecs_queries w' =
         map (\<lambda>p. (fst p, if T \<in> set (q_component_names (snd p))
                            then snd (refresh w2 (snd p)) else snd p)) (ecs_queries w)"
      using refresh_queries_ok[OF c2 pre, of T] by (simp add: res)
    have step: "query_ok w' (k, if T \<in> set (q_component_names q)
                            then snd (refresh w2 q) else q)"
      if q: "query_ok w (k, q)" for k q
    proof (cases "T \<in> set (q_component_names q)")
      case True
      have rgq: "list_all (\<lambda>T. T \<in> set (map fst (ecs_components w2))) (q_component_names q)"
        and rsq: "q_components q = map (class_ref w2) (q_component_names q)"
        using q by (simp_all add: query_ok_def comps2 class_ref_cong[OF comps2])
      note r = refresh_exact[OF c2 rgq rsq]
      define q' where "q' = snd (refresh w2 q)"
      have same: "q' = q\<lparr>q_entities := q_entities q'\<rparr>" using r by (simp add: q'_def)
      have n: "q_component_names q' = q_component_names q" "q_components q' = q_components q"
        by (subst same, simp)+
      have "set (map fst (q_entities q')) = matching w2 q" using r by (simp add: q'_def)
      also have "\<dots> = matching w' q'"
        by (rule matching_cong[symmetric]) (simp_all add: ents2 n)
      finally show ?thesis
        using q True by (simp add: query_ok_def q'_def[symmetric] n comps class_ref_cong[OF comps])
    next
      case False
      have "matching w' q = matching w q"
      proof (rule set_eqI)
        fix a
        have "list_all (holds self') (q_component_names q) \<longleftrightarrow> list_all (holds self) (q_component_names q)"
          using False by (auto simp: list_all_iff h)
        then show "a \<in> matching w' q \<longleftrightarrow> a \<in> matching w q"
          unfolding matching_update_iff[OF d Some ents]
          using matching_self[OF d Some, of q] by simp
      qed
      then show ?thesis using q False by (simp add: query_ok_def comps class_ref_cong[OF comps])
    qed
    show ?thesis
      unfolding w'_def[symmetric] queries_exact_def qs
      using assms(2) step by (auto simp: queries_exact_def list_all_iff)
  qed
qed

lemma exact_apply_op:
  "consistent w \<and> queries_exact w \<Longrightarrow> ordinary_op op \<Longrightarrow>
   consistent (apply_op op w) \<and> queries_exact (apply_op op w)"
  by (cases op)
     (simp_all add: consistent_addComponent consistent_removeComponent
        queries_exact_addComponent queries_exact_removeComponent)

lemma exact_run:
  "consistent w \<and> queries_exact w \<Longrightarrow> list_all ordinary_op ops \<Longrightarrow>
   consistent (run ops w) \<and> queries_exact (run ops w)"
proof (induction ops arbitrary: w)
  case Nil
  then show ?case by simp
next
  case (Cons op ops)
  have o: "ordinary_op op" and os: "list_all ordinary_op ops" using Cons.prems(2) by simp_all
  show ?case using Cons.IH[OF exact_apply_op[OF Cons.prems(1) o] os] by simp
qed

lemma query_caches_exact:
  assumes "consistent w" "queries_exact w" "list_all ordinary_op ops"
    and "map_of (ecs_queries (run ops w)) key = Some q"
  shows "set (map fst (q_entities q)) = matching (run ops w) q"
proof -
  have "queries_exact (run ops w)" using exact_run[of w ops] assms(1,2,3) by simp
  moreover have "(key, q) \<in> set (ecs_queries (run ops w))" using assms(4) by (rule map_of_SomeD)
  ultimately have "query_ok (run ops w) (key, q)"
    by (auto simp: queries_exact_def list_all_iff)
  then show ?thesis by (simp add: query_ok_def)
qed

subsection \<open>Consistent worlds and exact caches are what the registry builds\<close>

lemma consistent_ECS_new: "consistent ECS_new"
  by (simp add: consistent_def ECS_new_def)

lemma consistent_registerSystem: "consistent w \<Longrightarrow> consistent (registerSystem system_name w)"
  by (subst consistent_frame[of _ w]) (simp_all add: registerSystem_def console_error_def)

lemma holders_unregistered:
  assumes "list_all (registered_ok w) (ecs_entities w)" "T \<notin> set (map fst (ecs_components w))"
  shows "holders w T = {}"
proof -
  have "\<And>k x. (k, x) \<in> set (ecs_entities w) \<Longrightarrow> \<not> holds x T"
    using assms by (fastforce simp: list_all_iff registered_ok_def holds_def)
  then show ?thesis by (auto simp: holders_iff)
qed

lemma consistent_registerComponent:
  assumes "consistent w"
  shows "consistent (registerComponent c w)"
proof (cases "js_in (fst c) (ecs_components w)")
  case True
  then show ?thesis using assms
    by (subst consistent_frame[of _ w]) (simp_all add: registerComponent_def console_error_def)
next
  case False
  define w' where "w' = registerComponent c w"
  note d = consistentD[OF assms]
  have fresh: "fst c \<notin> set (map fst (ecs_components w))"
    using False by (simp add: js_in_def)
  have ents: "ecs_entities w' = ecs_entities w"
    and comps: "ecs_components w' = AList.update (fst c) c (ecs_components w)"
    and store: "class_objects w' = AList.update c \<lparr>cls_entities = {}\<rparr> (class_objects w)"
    using False by (simp_all add: w'_def registerComponent_def)
  have h: "\<And>T. holders w' T = holders w T" by (simp add: holders_def ents)
  have new: "presence_ok w' (fst c, c)"
    by (simp add: presence_ok_def store update_conv' h holders_unregistered[OF d(4) fresh])
  have old: "presence_ok w' p" if "p \<in> set (ecs_components w)" for p
  proof -
    have p: "presence_ok w p" using d(5) that by (simp add: list_all_iff)
    have "fst p \<in> set (map fst (ecs_components w))" using that by simp
    then have "fst p \<noteq> fst c" using fresh by metis
    then have "snd p \<noteq> c" using p by (auto simp: presence_ok_def)
    then show ?thesis using p by (simp add: presence_ok_def store update_conv' h)
  qed
  have "list_all (presence_ok w') (ecs_components w)"
    using old by (simp add: list_all_iff)
  then have pr': "list_all (presence_ok w') (ecs_components w')"
    unfolding comps using new by (rule list_all_update)
  have rg': "list_all (registered_ok w') (ecs_entities w')"
    using d(4) by (auto simp: ents comps registered_ok_def list_all_iff dom_update)
  show ?thesis
    unfolding w'_def[symmetric] consistent_def
    using d(1,2,3) pr' rg' by (simp add: ents comps distinct_update)
qed

lemma consistent_Entity_new:
  assumes "consistent w" "Uuid uuid \<notin> set (map fst (ecs_entities w))"
  shows "consistent (Entity_new uuid w)"
proof -
  define e0 where
    "e0 = \<lparr>ent_props = [(''id'', EUuid uuid), (''components'', EDict []), (''ecs'', EWorld)],
           ent_proto_replaced = False\<rparr>"
  define w' where "w' = Entity_new uuid w"
  note d = consistentD[OF assms(1)]
  have ents: "ecs_entities w' = AList.update (Uuid uuid) e0 (ecs_entities w)"
    and comps: "ecs_components w' = ecs_components w"
    and store: "class_objects w' = class_objects w"
    by (simp_all add: w'_def Entity_new_def addEntity_def e0_def id_key_def)
  have c0: "ent_components e0 = []" by (simp add: ent_components_def e0_def)
  have s: "set (ecs_entities w') = insert (Uuid uuid, e0) (set (ecs_entities w))"
    using assms(2) by (simp add: ents set_update_fresh)
  have "\<And>T. holders w' T = holders w T"
    by (rule set_eqI) (auto simp: holders_iff s holds_def c0)
  then have p: "presence_ok w' = presence_ok w"
    by (intro ext) (simp add: presence_ok_def store)
  have "entity_ok (Uuid uuid, e0)"
    by (simp add: entity_ok_def c0) (simp add: e0_def id_key_def)
  then have ok': "list_all entity_ok (ecs_entities w')"
    unfolding ents by (rule list_all_update[OF d(3)])
  have r: "registered_ok w' = registered_ok w"
    by (rule ext) (simp add: registered_ok_def comps)
  have "registered_ok w (Uuid uuid, e0)" by (simp add: registered_ok_def c0)
  then have rg': "list_all (registered_ok w') (ecs_entities w')"
    unfolding ents r by (rule list_all_update[OF d(4)])
  show ?thesis
    unfolding w'_def[symmetric] consistent_def
    using d(1,2,5) ok' rg' by (simp add: ents comps p distinct_update)
qed

lemma createQuery_frame:
  "ecs_entities (snd (createQuery logic w)) = ecs_entities w"
  "ecs_components (snd (createQuery logic w)) = ecs_components w"
  "class_objects (snd (createQuery logic w)) = class_objects w"
  by (simp_all add: createQuery_def console_error_def split: sum.split prod.split outcome.split)

lemma query_frame:
  "ecs_entities (snd (query logic w)) = ecs_entities w"
  "ecs_components (snd (query logic w)) = ecs_components w"
  "class_objects (snd (query logic w)) = class_objects w"
proof -
  obtain r w' where c: "createQuery logic w = (r, w')" by (cases "createQuery logic w")
  have "ecs_entities w' = ecs_entities w" "ecs_components w' = ecs_components w"
    "class_objects w' = class_objects w"
    using createQuery_frame[of logic w] by (simp_all add: c)
  then show "ecs_entities (snd (query logic w)) = ecs_entities w"
    "ecs_components (snd (query logic w)) = ecs_components w"
    "class_objects (snd (query logic w)) = class_objects w"
    by (simp_all add: query_def c console_error_def split: option.split outcome.split bool.split)
qed

lemma consistent_query: "consistent w \<Longrightarrow> consistent (snd (query logic w))"
  by (subst consistent_frame[of _ w]) (simp_all add: query_frame)

lemma queries_exact_ECS_new: "queries_exact ECS_new"
  by (simp add: queries_exact_def ECS_new_def)

lemma queries_exact_registerSystem:
  "queries_exact w \<Longrightarrow> queries_exact (registerSystem system_name w)"
  by (subst queries_exact_frame[of _ w])
     (simp_all add: registerSystem_def console_error_def queries_exact_def)

lemma queries_exact_createQuery:
  assumes "consistent w" "queries_exact w"
    and "distinct (map strip_not logic)"
    and "list_all (\<lambda>token. strip_not token \<in> set (map fst (ecs_components w))) logic"
  shows "fst (createQuery logic w) = Returned (\<not> js_in (logic_key logic) (ecs_queries w)) \<and>
         queries_exact (snd (createQuery logic w))"
proof (cases "js_in (logic_key logic) (ecs_queries w)")
  case True
  have "queries_exact (console_error msg w)" for msg
    using assms(2)
    by (subst queries_exact_frame[of _ w]) (simp_all add: console_error_def queries_exact_def)
  then show ?thesis using True by (simp add: createQuery_def)
next
  case False
  define q0 where "q0 = Query_fields w logic"
  define q1 where "q1 = snd (refresh w q0)"
  define q2 where "q2 = snd (refresh w q1)"
  have n0: "q_component_names q0 = map strip_not logic"
    and c0: "q_components q0 = map (class_ref w) (q_component_names q0)"
    by (simp_all add: q0_def Query_fields_def)
  have rg0: "list_all (\<lambda>T. T \<in> set (map fst (ecs_components w))) (q_component_names q0)"
    using assms(4) by (simp add: n0 list_all_iff)
  note r0 = refresh_exact[OF assms(1) rg0 c0]
  have s1: "q1 = q0\<lparr>q_entities := q_entities q1\<rparr>" using r0 by (simp add: q1_def)
  have n1: "q_component_names q1 = q_component_names q0" "q_components q1 = q_components q0"
    by (subst s1, simp)+
  have rg1: "list_all (\<lambda>T. T \<in> set (map fst (ecs_components w))) (q_component_names q1)"
    and c1: "q_components q1 = map (class_ref w) (q_component_names q1)"
    using rg0 c0 by (simp_all add: n1)
  note r1 = refresh_exact[OF assms(1) rg1 c1]
  have s2: "q2 = q1\<lparr>q_entities := q_entities q2\<rparr>" using r1 by (simp add: q2_def)
  have n2: "q_component_names q2 = q_component_names q0" "q_components q2 = q_components q0"
    by (subst s2, simp add: n1)+
  have "set (map fst (q_entities q2)) = matching w q1" using r1 by (simp add: q2_def)
  also have "\<dots> = matching w q2" by (rule matching_cong) (simp_all add: n1 n2)
  finally have ok2: "query_ok w (logic_key logic, q2)"
    using assms(3) rg0 c0 by (simp add: query_ok_def n2 n0)
  have new: "Query_new w logic = Inr q1"
    using r0 by (cases "refresh w q0") (simp add: Query_new_def q0_def[symmetric] q1_def)
  have res: "createQuery logic w =
        (Returned True, w\<lparr>ecs_queries := AList.update (logic_key logic) q2 (ecs_queries w)\<rparr>)"
    using False r1 by (cases "refresh w q1") (simp add: createQuery_def new q2_def)
  have "list_all (query_ok w) (AList.update (logic_key logic) q2 (ecs_queries w))"
    using list_all_update[where P = "query_ok w" and k = "logic_key logic" and v = q2
        and al = "ecs_queries w"] ok2 assms(2)
    by (simp add: queries_exact_def)
  then have "queries_exact (w\<lparr>ecs_queries := AList.update (logic_key logic) q2 (ecs_queries w)\<rparr>)"
    by (subst queries_exact_frame[of _ w]) simp_all
  then show ?thesis using False by (simp add: res)
qed

lemma queries_exact_query:
  assumes "consistent w" "queries_exact w"
    and "distinct (map strip_not logic)"
    and "list_all (\<lambda>token. strip_not token \<in> set (map fst (ecs_components w))) logic"
  shows "queries_exact (snd (query logic w))"
proof (cases "js_in (logic_key logic) (ecs_queries w)")
  case True
  then show ?thesis using assms(2) by (simp add: query_def split: option.split)
next
  case False
  obtain w' where c: "createQuery logic w = (Returned True, w')"
    using queries_exact_createQuery[OF assms] False by (cases "createQuery logic w") simp
  have "queries_exact w'" using queries_exact_createQuery[OF assms] by (simp add: c)
  then show ?thesis using False by (simp add: query_def c split: option.split)
qed

lemma queries_exact_registerComponent:
  assumes "consistent w" "queries_exact w"
  shows "queries_exact (registerComponent c w)"
proof (cases "js_in (fst c) (ecs_components w)")
  case True
  then show ?thesis using assms(2)
    by (subst queries_exact_frame[of _ w])
       (simp_all add: registerComponent_def console_error_def queries_exact_def)
next
  case False
  define w' where "w' = registerComponent c w"
  have fresh: "fst c \<notin> set (map fst (ecs_components w))"
    using False by (simp add: js_in_def)
  have ents: "ecs_entities w' = ecs_entities w"
    and comps: "ecs_components w' = AList.update (fst c) c (ecs_components w)"
    and qs: "ecs_queries w' = ecs_queries w"
    using False by (simp_all add: w'_def registerComponent_def)
  have "query_ok w' p" if p: "query_ok w p" for p
  proof -
    have reg: "list_all (\<lambda>T. T \<in> set (map fst (ecs_components w))) (q_component_names (snd p))"
      using p by (simp add: query_ok_def)
    have "class_ref w' T = class_ref w T" if "T \<in> set (q_component_names (snd p))" for T
    proof -
      have "T \<in> set (map fst (ecs_components w))" using reg that by (simp add: list_all_iff)
      then have "T \<noteq> fst c" using fresh by metis
      then show ?thesis by (simp add: class_ref_def comps update_conv')
    qed
    then have m: "map (class_ref w') (q_component_names (snd p)) =
                  map (class_ref w) (q_component_names (snd p))"
      by simp
    have "list_all (\<lambda>T. T \<in> set (map fst (ecs_components w'))) (q_component_names (snd p))"
      using reg by (auto simp: list_all_iff comps dom_update)
    then show ?thesis
      using p by (simp add: query_ok_def m matching_cong[OF ents])
  qed
  then show ?thesis
    using assms(2) by (simp add: w'_def[symmetric] queries_exact_def qs list_all_iff)
qed

lemma queries_exact_Entity_new:
  assumes "consistent w" "queries_exact w" "Uuid uuid \<notin> set (map fst (ecs_entities w))"
    and "list_all (\<lambda>p. q_component_names (snd p) \<noteq> []) (ecs_queries w)"
  shows "queries_exact (Entity_new uuid w)"
proof -
  define e0 where
    "e0 = \<lparr>ent_props = [(''id'', EUuid uuid), (''components'', EDict []), (''ecs'', EWorld)],
           ent_proto_replaced = False\<rparr>"
  define w' where "w' = Entity_new uuid w"
  have ents: "ecs_entities w' = AList.update (Uuid uuid) e0 (ecs_entities w)"
    and comps: "ecs_components w' = ecs_components w"
    and qs: "ecs_queries w' = ecs_queries w"
    by (simp_all add: w'_def Entity_new_def addEntity_def e0_def id_key_def)
  have c0: "ent_components e0 = []" by (simp add: ent_components_def e0_def)
  have s: "set (ecs_entities w') = insert (Uuid uuid, e0) (set (ecs_entities w))"
    using assms(3) by (simp add: ents set_update_fresh)
  have h: "\<And>T. holders w' T = holders w T"
    by (rule set_eqI) (auto simp: holders_iff s holds_def c0)
  have hs: "\<And>T. holders w T \<subseteq> set (map fst (ecs_entities w))" by (rule holders_subset)
  have "query_ok w' p" if p: "query_ok w p" and n: "q_component_names (snd p) \<noteq> []" for p
  proof -
    obtain T names where names: "q_component_names (snd p) = T # names"
      using n by (cases "q_component_names (snd p)") auto
    have "matching w' (snd p) = matching w (snd p)"
      using hs[of T] by (auto simp: matching_def h s names)
    then show ?thesis
      using p by (simp add: query_ok_def comps class_ref_cong[OF comps])
  qed
  then show ?thesis
    using assms(2,4) by (simp add: w'_def[symmetric] queries_exact_def qs list_all_iff)
qed

subsection \<open>Presence sets (C2)\<close>

text \<open>
  Under ordinary calls the presence sets are exact: in a consistent world, after any
  sequence of \<open>addComponent\<close> and \<open>removeComponent\<close> calls with class names that are
  not names of entity members and property bags that leave the component's constructor,
  prototype and hook alone, the presence set of every registered class is the set of its
  holders.
\<close>

lemma presence_exact_ordinary:
  assumes "consistent w" "list_all ordinary_op ops"
    and "T \<in> set (map fst (ecs_components (run ops w)))"
  shows "presence (run ops w) T = Some (holders (run ops w) T)"
proof -
  have c: "consistent (run ops w)" using assms(1,2) by (rule consistent_run)
  obtain cls statics where "map_of (ecs_components (run ops w)) T = Some cls"
    "map_of (class_objects (run ops w)) cls = Some statics"
    "cls_entities statics = holders (run ops w) T"
    using registered_class[OF c assms(3)] by metis
  then show ?thesis by (simp add: presence_def)
qed

text \<open>
  C2. The presence set of a registered class can differ from the set of entities that
  hold a component of the class. A class named \<open>ecs\<close>: \<open>addComponent\<close> stores the
  component on the entity, in the place of the entity's reference to its world, and then
  throws a TypeError before the presence set is written; the entity holds the component
  and the presence set is empty. A class named \<open>id\<close>: the component takes the place
  of the entity's id before the id is used as the key, so the presence set holds the key
  \<open>[object Object]\<close> and not the id under which the world keeps the entity. A
  second world that registers \<open>Position\<close>: the presence set is a property of the
  class object and registration empties it, while in the first world the entity still
  holds its \<open>Position\<close>.
\<close>

theorem presence_set_out_of_step:
  "fst (addComponent (Uuid ''e1'') ''ecs'' [] world_members) = Threw TypeError \<and>
   holders (run [Attach (Uuid ''e1'') ''ecs'' []] world_members) ''ecs'' = {Uuid ''e1''} \<and>
   presence (run [Attach (Uuid ''e1'') ''ecs'' []] world_members) ''ecs'' = Some {} \<and>
   fst (addComponent (Uuid ''e1'') ''id'' [] world_members) = Returned () \<and>
   holders (run [Attach (Uuid ''e1'') ''id'' []] world_members) ''id'' = {Uuid ''e1''} \<and>
   presence (run [Attach (Uuid ''e1'') ''id'' []] world_members) ''id'' = Some {ObjectKey} \<and>
   holders world_held ''Position'' = {Uuid ''e1''} \<and>
   presence world_held ''Position'' = Some {Uuid ''e1''} \<and>
   holders world_held_after_second_world ''Position'' = {Uuid ''e1''} \<and>
   presence world_held_after_second_world ''Position'' = Some {}"
  by code_simp

subsection \<open>Attaching an unregistered class (C4)\<close>

text \<open>
  C4. An attach of an unregistered class can change the entity. A class named
  \<open>toString\<close> is not in the table of a world without registered classes, but the
  test \<open>in\<close> of line 89 finds the inherited \<open>toString\<close>: the component is stored
  on the entity and in its dictionary, and then line 98 throws a TypeError. A class
  \<open>Velocity\<close> that is not registered, attached with the property bag
  \<open>{constructor: Position}\<close>: the name is read from the component after the bag has
  been merged into it, so the call returns and the entity holds the component under the
  name \<open>Position\<close>, with its id in the presence set of \<open>Position\<close>.
\<close>

theorem unregistered_attach_changes_entity:
  "ecs_components world_bare = [] \<and>
   fst (addComponent (Uuid ''e1'') ''toString'' [] world_bare) = Threw TypeError \<and>
   holders world_bare ''toString'' = {} \<and>
   holders (snd (addComponent (Uuid ''e1'') ''toString'' [] world_bare)) ''toString'' = {Uuid ''e1''} \<and>
   map fst (ecs_components world_two) = [''Position''] \<and>
   fst (addComponent (Uuid ''e1'') ''Velocity'' [(''constructor'', PClass ''Position'')] world_two) =
     Returned () \<and>
   holders (snd (addComponent (Uuid ''e1'') ''Velocity'' [(''constructor'', PClass ''Position'')]
      world_two)) ''Position'' = {Uuid ''e1''} \<and>
   presence (snd (addComponent (Uuid ''e1'') ''Velocity'' [(''constructor'', PClass ''Position'')]
      world_two)) ''Position'' = Some {Uuid ''e1''}"
  by code_simp

subsection \<open>Registering twice (C6)\<close>




subsection \<open>The empty logic list (C8)\<close>

lemma refresh_entities_empty:
  "q_components q = [] \<Longrightarrow>
   fst (refresh_entities ecs q ids cache) = Returned () \<and>
   fst ` set (snd (refresh_entities ecs q ids cache)) = set ids \<union> fst ` set cache"
  by (induction ids arbitrary: cache) (auto simp: dom_update)

text \<open>
  C8. The full rebuild of a query compiled from the empty logic list returns, and the keys
  of its cache are the ids of all entities in the world's entity table; so is the cache of
  the query that the constructor hands back.
\<close>

theorem empty_logic_matches_all:
  "fst (refresh w (Query_fields w [])) = Returned () \<and>
   fst ` set (q_entities (snd (refresh w (Query_fields w [])))) = fst ` set (ecs_entities w) \<and>
   (case Query_new w [] of
      Inl err \<Rightarrow> False
    | Inr q \<Rightarrow> fst ` set (q_entities q) = fst ` set (ecs_entities w))"
proof -
  have c: "q_components (Query_fields w []) = []" by (simp add: Query_fields_def)
  obtain r cache where rc: "refresh_entities w (Query_fields w []) (map fst (ecs_entities w)) [] = (r, cache)"
    by (cases "refresh_entities w (Query_fields w []) (map fst (ecs_entities w)) []")
  have "r = Returned ()" "fst ` set cache = fst ` set (ecs_entities w)"
    using refresh_entities_empty[OF c, of w "map fst (ecs_entities w)" "[]"] by (simp_all add: rc)
  then show ?thesis by (simp add: refresh_def Query_new_def rc)
qed

subsection \<open>Negation (C9)\<close>

lemma refresh_entities_components:
  "q_components q' = q_components q \<Longrightarrow>
   refresh_entities ecs q' ids cache = refresh_entities ecs q ids cache"
  by (induction ids arbitrary: cache) (simp_all split: outcome.split)

lemma strip_not_twice: "take 2 token \<noteq> ''!!'' \<Longrightarrow> strip_not (strip_not token) = strip_not token"
  by (cases token; cases "tl token") (auto simp: strip_not_def)

lemma Query_fields_strip:
  assumes "\<forall>token \<in> set logic. take 2 token \<noteq> ''!!''"
  shows "Query_fields ecs (map strip_not logic) = (Query_fields ecs logic)\<lparr>q_logic := map strip_not logic\<rparr>"
  using assms by (simp add: Query_fields_def strip_not_twice)

text \<open>
  C9, amended. For a logic list none of whose tokens begins with two \<open>!\<close>, the query
  compiled from it has the stripped names as its required names and classes, and it
  differs from the query compiled from the stripped list in the recorded logic only: the
  full rebuild has the same outcome and cache, and the incremental path gives the same
  outcome and cache, for every world, entity and starting cache.
\<close>

theorem negation_inert:
  assumes "\<forall>token \<in> set logic. take 2 token \<noteq> ''!!''"
  shows "q_component_names (Query_fields ecs logic) = map strip_not logic \<and>
         q_components (Query_fields ecs logic) = map (class_ref ecs) (map strip_not logic) \<and>
         Query_fields ecs (map strip_not logic) =
           (Query_fields ecs logic)\<lparr>q_logic := map strip_not logic\<rparr> \<and>
         fst (refresh w (Query_fields ecs (map strip_not logic))) =
           fst (refresh w (Query_fields ecs logic)) \<and>
         q_entities (snd (refresh w (Query_fields ecs (map strip_not logic)))) =
           q_entities (snd (refresh w (Query_fields ecs logic))) \<and>
         map_outcome q_entities
           (componentAddedToEntity eid e ((Query_fields ecs (map strip_not logic))\<lparr>q_entities := cache\<rparr>)) =
         map_outcome q_entities
           (componentAddedToEntity eid e ((Query_fields ecs logic)\<lparr>q_entities := cache\<rparr>))"
proof -
  have f: "Query_fields ecs (map strip_not logic) =
           (Query_fields ecs logic)\<lparr>q_logic := map strip_not logic\<rparr>"
    using assms by (rule Query_fields_strip)
  have r: "refresh_entities w ((Query_fields ecs logic)\<lparr>q_logic := map strip_not logic\<rparr>)
             (map fst (ecs_entities w)) [] =
           refresh_entities w (Query_fields ecs logic) (map fst (ecs_entities w)) []"
    by (rule refresh_entities_components) simp
  have a: "map_outcome q_entities
           (componentAddedToEntity eid e ((Query_fields ecs logic)\<lparr>q_logic := map strip_not logic, q_entities := cache\<rparr>)) =
         map_outcome q_entities
           (componentAddedToEntity eid e ((Query_fields ecs logic)\<lparr>q_entities := cache\<rparr>))"
    by (simp add: componentAddedToEntity_def Let_def split: outcome.split sum.split)
  show ?thesis
    unfolding f using a
    by (simp add: refresh_def r case_prod_beta) (simp add: Query_fields_def)
qed

theorem negation_inert_witness:
  "take 2 ''!Position'' \<noteq> ''!!'' \<and>
   q_component_names (Query_fields world_held [''!Position'']) = [''Position''] \<and>
   fst (refresh world_held (Query_fields world_held [''Position''])) =
   fst (refresh world_held (Query_fields world_held [''!Position''])) \<and>
   q_entities (snd (refresh world_held (Query_fields world_held [''Position'']))) =
   q_entities (snd (refresh world_held (Query_fields world_held [''!Position''])))"
proof -
  have h: "\<forall>token \<in> set [''!Position'']. take 2 token \<noteq> ''!!''" by simp
  have s: "map strip_not [''!Position''] = [''Position'']" by (simp add: strip_not_def)
  note n = negation_inert[OF h, where ecs = world_held and w = world_held
        and eid = "Uuid ''e2''" and e = "entity_with_position ''e2'' 2" and cache = "[]", unfolded s]
  have t: "take 2 ''!Position'' \<noteq> ''!!''" by simp
  show ?thesis using n t by blast
qed

text \<open>
  C9 as stated fails for a token with two \<open>!\<close>: only one is stripped, so the query
  compiled from \<open>['!!Position']\<close> requires a class named \<open>!Position\<close> and its
  construction throws in a world with entities, while the queries compiled from
  \<open>['!Position']\<close> and from \<open>['Position']\<close> match the entity holding a
  \<open>Position\<close>.
\<close>

theorem double_negation_counterexample:
  "Query_new world_held [''!!Position''] = Inl TypeError \<and>
   Query_new world_held (map strip_not [''!!Position'']) =
     Inr ((position_query [(Uuid ''e1'', QTrue)])\<lparr>q_logic := [''!Position'']\<rparr>) \<and>
   Query_new world_held [''Position''] = Inr (position_query [(Uuid ''e1'', QTrue)])"
  by code_simp

subsection \<open>Values and keys of a cache on the two paths (C10)\<close>

lemma refresh_entities_values:
  "list_all (\<lambda>p. snd p = QTrue) cache \<Longrightarrow>
   list_all (\<lambda>p. snd p = QTrue) (snd (refresh_entities ecs q ids cache))"
proof (induction ids arbitrary: cache)
  case Nil
  then show ?case by simp
next
  case (Cons entity_id ids)
  have u: "list_all (\<lambda>p. snd p = QTrue) (AList.update entity_id QTrue cache)"
    using Cons.prems by (induction cache) auto
  show ?case using Cons.IH[OF u] Cons.IH[OF Cons.prems]
    by (simp split: outcome.split add: Cons.prems)
qed

lemma refresh_values: "list_all (\<lambda>p. snd p = QTrue) (q_entities (snd (refresh ecs q)))"
  using refresh_entities_values[of "[]" ecs q "map fst (ecs_entities ecs)"]
  by (simp add: refresh_def case_prod_beta)

text \<open>
  C10 as stated fails in its last clause: the keys of a cache depend on the path too.
  In \<open>world_repeat\<close>, after \<open>Position\<close> is attached to the second entity, the
  cache kept by the incremental path has the first entity only and a rebuild gives both.
  In \<open>world_empty_logic\<close> the query \<open>[]\<close> was created before the entities: the
  incremental path has entered the entity that got a component, and a rebuild gives
  both entities.
\<close>

theorem cache_keys_depend_on_path:
  "map_of (ecs_queries (run [Attach (Uuid ''e2'') ''Position'' [(''x'', PNumber 1)]] world_repeat))
      ''Position,Position'' = Some (repeat_query [(Uuid ''e1'', QTrue)]) \<and>
   map fst (q_entities (snd (refresh
      (run [Attach (Uuid ''e2'') ''Position'' [(''x'', PNumber 1)]] world_repeat)
      (repeat_query [(Uuid ''e1'', QTrue)])))) = [Uuid ''e1'', Uuid ''e2''] \<and>
   map_of (ecs_queries world_empty_logic) [] =
     Some ((Query_fields world_empty_logic [])\<lparr>q_entities := [(Uuid ''e1'', QEntity (Uuid ''e1''))]\<rparr>) \<and>
   map fst (q_entities (snd (refresh world_empty_logic
      ((Query_fields world_empty_logic [])\<lparr>q_entities := [(Uuid ''e1'', QEntity (Uuid ''e1''))]\<rparr>)))) =
     [Uuid ''e1'', Uuid ''e2'']"
  by code_simp

text \<open>
  C10, amended. The full rebuild stores \<open>true\<close> under every id of its cache; the
  incremental path, when the entity matches, stores the entity under its id. In
  \<open>world_mixed\<close>, reached by attaches, a query and a rebuilding removal, the cache of
  one query holds \<open>true\<close> for one entity and the entity object for the other. The
  keys do not depend on the path when every query of the world is compiled from pairwise
  different names of registered classes: from a consistent world whose caches hold
  exactly the matching entities, after any sequence of ordinary \<open>addComponent\<close> and
  \<open>removeComponent\<close> calls, a rebuild of any query of the world returns and gives
  the keys that its cache has.
\<close>

theorem cache_values_by_path:
  "list_all (\<lambda>p. snd p = QTrue) (q_entities (snd (refresh w q))) \<and>
   (component_keys e = Returned properties \<and>
    length (filter (\<lambda>property. property \<in> set (q_component_names q)) properties) =
      length (q_components q) \<and>
    id_key e = Inr k \<longrightarrow>
    componentAddedToEntity eid e q =
      Returned (q\<lparr>q_entities := AList.update k (QEntity eid) (q_entities q)\<rparr>)) \<and>
   map_of (ecs_queries world_mixed) ''Position'' =
     Some (position_query [(Uuid ''e1'', QTrue), (Uuid ''e2'', QEntity (Uuid ''e2''))]) \<and>
   (consistent start \<and> queries_exact start \<and> list_all ordinary_op ops \<and>
    map_of (ecs_queries (run ops start)) query_name = Some cached \<longrightarrow>
    fst (refresh (run ops start) cached) = Returned () \<and>
    set (map fst (q_entities (snd (refresh (run ops start) cached)))) = set (map fst (q_entities cached)))"
proof -
  have 1: "list_all (\<lambda>p. snd p = QTrue) (q_entities (snd (refresh w q)))"
    by (rule refresh_values)
  have 2: "component_keys e = Returned properties \<and>
    length (filter (\<lambda>property. property \<in> set (q_component_names q)) properties) =
      length (q_components q) \<and>
    id_key e = Inr k \<longrightarrow>
    componentAddedToEntity eid e q =
      Returned (q\<lparr>q_entities := AList.update k (QEntity eid) (q_entities q)\<rparr>)"
    by (simp add: componentAddedToEntity_def Let_def)
  have 3: "map_of (ecs_queries world_mixed) ''Position'' =
     Some (position_query [(Uuid ''e1'', QTrue), (Uuid ''e2'', QEntity (Uuid ''e2''))])"
    by code_simp
  have 4: "fst (refresh (run ops start) cached) = Returned () \<and>
    set (map fst (q_entities (snd (refresh (run ops start) cached)))) = set (map fst (q_entities cached))"
    if h: "consistent start" "queries_exact start" "list_all ordinary_op ops"
      "map_of (ecs_queries (run ops start)) query_name = Some cached"
  proof -
    have c: "consistent (run ops start)" and e: "queries_exact (run ops start)"
      using exact_run[of start ops] h(1,2,3) by simp_all
    have "(query_name, cached) \<in> set (ecs_queries (run ops start))" using h(4) by (rule map_of_SomeD)
    then have ok: "query_ok (run ops start) (query_name, cached)"
      using e by (auto simp: queries_exact_def list_all_iff)
    then have rg: "list_all (\<lambda>T. T \<in> set (map fst (ecs_components (run ops start)))) (q_component_names cached)"
      and cs: "q_components cached = map (class_ref (run ops start)) (q_component_names cached)"
      and ks: "set (map fst (q_entities cached)) = matching (run ops start) cached"
      by (simp_all add: query_ok_def)
    show ?thesis using refresh_exact[OF c rg cs] ks by simp
  qed
  show ?thesis using 1 2 3 4 by blast
qed

theorem cache_values_by_path_witness:
  "component_keys (entity_with_position ''e2'' 2) = Returned [''Position''] \<and>
   length (filter (\<lambda>property. property \<in> set (q_component_names (position_query [(Uuid ''e1'', QTrue)])))
      [''Position'']) = length (q_components (position_query [(Uuid ''e1'', QTrue)])) \<and>
   id_key (entity_with_position ''e2'' 2) = Inr (Uuid ''e2'') \<and>
   componentAddedToEntity (Uuid ''e2'') (entity_with_position ''e2'' 2)
      (position_query [(Uuid ''e1'', QTrue)]) =
     Returned (position_query [(Uuid ''e1'', QTrue), (Uuid ''e2'', QEntity (Uuid ''e2''))]) \<and>
   consistent world_queried \<and> queries_exact world_queried \<and>
   list_all ordinary_op
     [Detach (Uuid ''e2'') ''Position'', Attach (Uuid ''e2'') ''Position'' [(''x'', PNumber 2)]] \<and>
   map_of (ecs_queries world_mixed) ''Position'' =
     Some (position_query [(Uuid ''e1'', QTrue), (Uuid ''e2'', QEntity (Uuid ''e2''))]) \<and>
   fst (refresh world_mixed
      (position_query [(Uuid ''e1'', QTrue), (Uuid ''e2'', QEntity (Uuid ''e2''))])) = Returned () \<and>
   set (map fst (q_entities (snd (refresh world_mixed
      (position_query [(Uuid ''e1'', QTrue), (Uuid ''e2'', QEntity (Uuid ''e2''))]))))) =
     {Uuid ''e1'', Uuid ''e2''} \<and>
   list_all (\<lambda>p. snd p = QTrue)
     (q_entities (snd (refresh world_mixed
        (position_query [(Uuid ''e1'', QTrue), (Uuid ''e2'', QEntity (Uuid ''e2''))]))))"
proof -
  have a: "component_keys (entity_with_position ''e2'' 2) = Returned [''Position'']" by code_simp
  have b: "length (filter (\<lambda>property. property \<in> set (q_component_names (position_query [(Uuid ''e1'', QTrue)])))
      [''Position'']) = length (q_components (position_query [(Uuid ''e1'', QTrue)]))"
    by code_simp
  have c: "id_key (entity_with_position ''e2'' 2) = Inr (Uuid ''e2'')" by code_simp
  have d: "consistent world_queried" by code_simp
  have e: "queries_exact world_queried" by code_simp
  have f: "list_all ordinary_op
     [Detach (Uuid ''e2'') ''Position'', Attach (Uuid ''e2'') ''Position'' [(''x'', PNumber 2)]]"
    by code_simp
  have g: "map_of (ecs_queries (run [Detach (Uuid ''e2'') ''Position'',
       Attach (Uuid ''e2'') ''Position'' [(''x'', PNumber 2)]] world_queried)) ''Position'' =
     Some (position_query [(Uuid ''e1'', QTrue), (Uuid ''e2'', QEntity (Uuid ''e2''))])"
    by code_simp
  have m: "world_mixed = run [Detach (Uuid ''e2'') ''Position'',
       Attach (Uuid ''e2'') ''Position'' [(''x'', PNumber 2)]] world_queried"
    by (simp only: world_mixed_def)
  have u: "AList.update (Uuid ''e2'') (QEntity (Uuid ''e2'')) (q_entities (position_query [(Uuid ''e1'', QTrue)]))
     = [(Uuid ''e1'', QTrue), (Uuid ''e2'', QEntity (Uuid ''e2''))]"
    by (simp add: position_query_def)
  have v: "(position_query [(Uuid ''e1'', QTrue)])\<lparr>q_entities := [(Uuid ''e1'', QTrue), (Uuid ''e2'', QEntity (Uuid ''e2''))]\<rparr>
     = position_query [(Uuid ''e1'', QTrue), (Uuid ''e2'', QEntity (Uuid ''e2''))]"
    by (simp add: position_query_def)
  have k: "set (map fst (q_entities (position_query [(Uuid ''e1'', QTrue), (Uuid ''e2'', QEntity (Uuid ''e2''))])))
     = {Uuid ''e1'', Uuid ''e2''}"
    by (simp add: position_query_def)
  note t = cache_values_by_path[where w = world_mixed
      and q = "position_query [(Uuid ''e1'', QTrue)]"
      and e = "entity_with_position ''e2'' 2" and properties = "[''Position'']"
      and k = "Uuid ''e2''" and eid = "Uuid ''e2''"
      and start = world_queried
      and ops = "[Detach (Uuid ''e2'') ''Position'', Attach (Uuid ''e2'') ''Position'' [(''x'', PNumber 2)]]"
      and query_name = "''Position''"
      and cached = "position_query [(Uuid ''e1'', QTrue), (Uuid ''e2'', QEntity (Uuid ''e2''))]",
      folded m, unfolded u v k]
  have l: "list_all (\<lambda>p. snd p = QTrue)
     (q_entities (snd (refresh world_mixed
        (position_query [(Uuid ''e1'', QTrue), (Uuid ''e2'', QEntity (Uuid ''e2''))]))))"
    by (rule refresh_values)
  show ?thesis using t a b c d e f g[folded m] l by blast
qed

subsection \<open>Where the code departs from the specification (C1, C3, C5, C7)\<close>

text \<open>
  C1. A query compiled from \<open>['Position', 'Position']\<close> requires two matches. The
  full rebuild counts the class once for each token, the incremental path counts each
  component name of the entity once. So after \<open>Position\<close> is attached to the second
  entity the cache still holds the first entity only, although both entities hold a
  \<open>Position\<close>; a rebuild in the same world finds both.
\<close>

theorem incremental_misses_repeated_type:
  "addComponent (Uuid ''e2'') ''Position'' [(''x'', PNumber 1)] world_repeat =
     (Returned (), run [Attach (Uuid ''e2'') ''Position'' [(''x'', PNumber 1)]] world_repeat) \<and>
   ecs_queries world_repeat = [(''Position,Position'', repeat_query [(Uuid ''e1'', QTrue)])] \<and>
   ecs_queries (run [Attach (Uuid ''e2'') ''Position'' [(''x'', PNumber 1)]] world_repeat) =
     [(''Position,Position'', repeat_query [(Uuid ''e1'', QTrue)])] \<and>
   holders (run [Attach (Uuid ''e2'') ''Position'' [(''x'', PNumber 1)]] world_repeat) ''Position'' =
     {Uuid ''e1'', Uuid ''e2''} \<and>
   refresh (run [Attach (Uuid ''e2'') ''Position'' [(''x'', PNumber 1)]] world_repeat)
       (repeat_query [(Uuid ''e1'', QTrue)]) =
     (Returned (), repeat_query [(Uuid ''e1'', QTrue), (Uuid ''e2'', QTrue)])"
  by code_simp

text \<open>Whenever the entity does not have the name, \<open>removeComponent\<close> throws and
  leaves the world as it was.\<close>

lemma removeComponent_absent:
  assumes "map_of (ecs_entities w) eid = Some e" "has_method ''removeComponent'' e"
    and "\<not> entity_in class_name e"
  shows "removeComponent eid class_name w = (Threw (ReferenceError ''component_name''), w)"
  using assms by (simp add: removeComponent_def)

text \<open>
  C3. Removing \<open>Position\<close> from an entity that holds no component: the call throws a
  ReferenceError and prints nothing; the world is unchanged.
\<close>

theorem removeComponent_absent_throws:
  "removeComponent (Uuid ''e1'') ''Position'' world_two =
     (Threw (ReferenceError ''component_name''), world_two)"
  by code_simp

text \<open>\<open>createQuery\<close> cannot return \<open>false\<close> to \<open>query\<close>, which has just tested
  the key itself; so \<open>query\<close> never prints.\<close>

lemma createQuery_fresh:
  "\<not> js_in (logic_key logic) (ecs_queries w) \<Longrightarrow> fst (createQuery logic w) \<noteq> Returned False"
  by (simp add: createQuery_def split: sum.split prod.split outcome.split)

lemma createQuery_fresh_console:
  "\<not> js_in (logic_key logic) (ecs_queries w) \<Longrightarrow>
   ecs_console (snd (createQuery logic w)) = ecs_console w"
  by (simp add: createQuery_def split: sum.split prod.split outcome.split)

lemma query_never_logs: "ecs_console (snd (query logic w)) = ecs_console w"
proof (cases "js_in (logic_key logic) (ecs_queries w)")
  case True
  then show ?thesis by (simp add: query_def split: option.split)
next
  case False
  obtain r w' where c: "createQuery logic w = (r, w')" by (cases "createQuery logic w")
  have "r \<noteq> Returned False" "ecs_console w' = ecs_console w"
    using createQuery_fresh[OF False] createQuery_fresh_console[OF False] by (simp_all add: c)
  then show ?thesis
    using False by (simp add: query_def c split: option.split outcome.split bool.split)
qed

text \<open>
  C5. In a world with an entity, \<open>query\<close> on a logic list naming an unregistered class
  throws the TypeError of the first rebuild; it does not return an empty result and it
  prints nothing.
\<close>

theorem query_unregistered_throws:
  "query [''Position''] world_bare = (Threw TypeError, world_bare)"
  by code_simp

text \<open>
  C7. In \<open>world_repeat\<close> the first entity holds a \<open>Position\<close> and is in the cache of
  the query \<open>['Position', 'Position']\<close>. Attaching \<open>Position\<close> once leaves it there;
  attaching, removing and attaching again leaves the same components on the entity but
  the cache empty.
\<close>

theorem reattach_changes_repeated_query:
  "map_of (ecs_entities (run [Attach (Uuid ''e1'') ''Position'' [(''x'', PNumber 5)]] world_repeat))
      (Uuid ''e1'') =
   map_of (ecs_entities (run [Attach (Uuid ''e1'') ''Position'' [(''x'', PNumber 5)],
        Detach (Uuid ''e1'') ''Position'',
        Attach (Uuid ''e1'') ''Position'' [(''x'', PNumber 5)]] world_repeat)) (Uuid ''e1'') \<and>
   ecs_queries (run [Attach (Uuid ''e1'') ''Position'' [(''x'', PNumber 5)]] world_repeat) =
     [(''Position,Position'', repeat_query [(Uuid ''e1'', QTrue)])] \<and>
   ecs_queries (run [Attach (Uuid ''e1'') ''Position'' [(''x'', PNumber 5)],
        Detach (Uuid ''e1'') ''Position'',
        Attach (Uuid ''e1'') ''Position'' [(''x'', PNumber 5)]] world_repeat) =
     [(''Position,Position'', repeat_query [])]"
  by code_simp

end
